theory Spec2Isabelle
  imports Main
begin

section \<open>JavaScript strings and values\<close>

text \<open>
  A JavaScript string is a sequence of code units. The model covers the strings whose code
  units are all below 256 (ASCII and Latin-1): one \<^typ>\<open>char\<close> is one code unit, and
  \<open>of_char\<close> reads its number. On that range \<open>String.prototype.trim\<close> and
  \<open>String.prototype.toLowerCase\<close> are exactly the functions below.
\<close>

definition isWhiteSpace :: "char \<Rightarrow> bool" where
  \<comment> \<open>WhiteSpace and LineTerminator of ECMAScript below 256: TAB, LF, VT, FF, CR, SP, NBSP.\<close>
  "isWhiteSpace c = (of_char c \<in> {9, 10, 11, 12, 13, 32, 160 :: nat})"

definition trimStart :: "string \<Rightarrow> string" where
  "trimStart s = dropWhile isWhiteSpace s"

definition trimEnd :: "string \<Rightarrow> string" where
  "trimEnd s = rev (dropWhile isWhiteSpace (rev s))"

definition trim :: "string \<Rightarrow> string" where
  "trim s = trimEnd (trimStart s)"

definition lowerChar :: "char \<Rightarrow> char" where
  \<comment> \<open>A..Z, and the Latin-1 capitals U+00C0..U+00DE without the multiplication sign U+00D7.\<close>
  "lowerChar c =
     (let n = of_char c :: nat
      in if (65 \<le> n \<and> n \<le> 90) \<or> (192 \<le> n \<and> n \<le> 222 \<and> n \<noteq> 215)
         then char_of (n + 32) else c)"

definition toLowerCase :: "string \<Rightarrow> string" where
  "toLowerCase s = map lowerChar s"

text \<open>
  A property of a request body or of a stored document that the code expects to hold a
  string: it is absent (\<open>undefined\<close>), \<open>null\<close>, or a string.
\<close>

datatype jsval = Undefined | Null | Str string

fun truthy :: "jsval \<Rightarrow> bool" where
  "truthy Undefined = False"
| "truthy Null = False"
| "truthy (Str s) = (s \<noteq> [])"

fun String :: "jsval \<Rightarrow> string" where
  "String Undefined = ''undefined''"
| "String Null = ''null''"
| "String (Str s) = s"

section \<open>Vaccination entries and the normalizer\<close>

record vaccination =
  vaccineType :: jsval
  date :: jsval

text \<open>An element of a vaccinations array: \<open>None\<close> is a \<open>null\<close> element.\<close>

type_synonym entry = "vaccination option"

definition vaccineKey :: "vaccination \<Rightarrow> string" where
  \<comment> \<open>\<open>String(v.vaccineType).trim().toLowerCase()\<close>\<close>
  "vaccineKey v = toLowerCase (trim (String (vaccineType v)))"

text \<open>
  \<open>dedupeVaccinationsArray\<close>: the loop over the input carries the set \<open>seen\<close> and the
  array \<open>unique\<close>.
\<close>

fun dedupeLoop :: "entry list \<Rightarrow> string set \<Rightarrow> entry list \<Rightarrow> entry list" where
  "dedupeLoop [] seen unique = unique"
| "dedupeLoop (None # vs) seen unique = dedupeLoop vs seen unique"
| "dedupeLoop (Some v # vs) seen unique =
     (if \<not> truthy (vaccineType v) then dedupeLoop vs seen unique
      else let key = vaccineKey v
           in if key \<notin> seen
              then dedupeLoop vs (insert key seen)
                     (unique @ [Some \<lparr>vaccineType = Str (trim (String (vaccineType v))),
                                      date = date v\<rparr>])
              else dedupeLoop vs seen unique)"

definition dedupeVaccinationsArray :: "entry list \<Rightarrow> entry list" where
  "dedupeVaccinationsArray vaccinations = dedupeLoop vaccinations {} []"

section \<open>JavaScript dates\<close>

text \<open>
  A Date object holds a time value: a number of milliseconds since 1970-01-01T00:00:00Z,
  or NaN (\<open>None\<close>). The definitions follow ECMAScript's, section "Date Objects". The
  process is taken to run with the local time zone UTC, so \<open>LocalTime t = t\<close>; with any
  zone of a fixed offset \<open>setDate (getDate () + n)\<close> moves the time value by the same
  \<open>n\<close> days.
\<close>

type_synonym timevalue = "int option"

definition msPerDay :: int where
  "msPerDay = 86400000"

definition TimeClip :: "int \<Rightarrow> timevalue" where
  "TimeClip t = (if \<bar>t\<bar> > 8640000000000000 then None else Some t)"

definition Day :: "int \<Rightarrow> int" where
  "Day t = t div msPerDay"

definition TimeWithinDay :: "int \<Rightarrow> int" where
  "TimeWithinDay t = t mod msPerDay"

definition DaysInYear :: "int \<Rightarrow> int" where
  "DaysInYear y =
     (if y mod 4 \<noteq> 0 then 365
      else if y mod 100 \<noteq> 0 then 366
      else if y mod 400 \<noteq> 0 then 365
      else 366)"

definition DayFromYear :: "int \<Rightarrow> int" where
  "DayFromYear y =
     365 * (y - 1970) + (y - 1969) div 4 - (y - 1901) div 100 + (y - 1601) div 400"

lemma div_succ:
  fixes a c :: int
  assumes c: "1 < c"
  shows "(a + 1) div c = a div c + (if (a + 1) mod c = 0 then 1 else 0)"
proof -
  have b: "0 \<le> a mod c" "a mod c < c" using c by simp_all
  have s: "(a + 1) div c = a div c + (a mod c + 1) div c"
    using div_add1_eq [of a 1 c] c by simp
  have m: "(a + 1) mod c = (a mod c + 1) mod c"
    using mod_add_left_eq [of a c 1] by simp
  show ?thesis
  proof (cases "a mod c = c - 1")
    case True
    then show ?thesis using s m c by simp
  next
    case False
    then have r: "0 < a mod c + 1" "a mod c + 1 < c" using b by simp_all
    then show ?thesis using s m by simp
  qed
qed

lemma mod_shift: "((y::int) + c * k) mod c = y mod c"
  by simp

lemma multiple_of_100: "(y::int) mod 100 = 0 \<Longrightarrow> y mod 4 = 0"
proof -
  assume "y mod 100 = 0"
  then have "100 dvd y" by (simp add: mod_eq_0_iff_dvd)
  moreover have "(4::int) dvd 100" by simp
  ultimately have "4 dvd y" by (rule dvd_trans [rotated])
  then show ?thesis by (simp add: mod_eq_0_iff_dvd)
qed

lemma multiple_of_400: "(y::int) mod 400 = 0 \<Longrightarrow> y mod 100 = 0"
proof -
  assume "y mod 400 = 0"
  then have "400 dvd y" by (simp add: mod_eq_0_iff_dvd)
  moreover have "(100::int) dvd 400" by simp
  ultimately have "100 dvd y" by (rule dvd_trans [rotated])
  then show ?thesis by (simp add: mod_eq_0_iff_dvd)
qed

lemma DayFromYear_Suc: "DayFromYear (y + 1) = DayFromYear y + DaysInYear y"
proof -
  have a: "(y + 1 - 1969) div 4 = (y - 1969) div 4 + (if y mod 4 = 0 then 1 else 0)"
    using div_succ [of 4 "y - 1969"] mod_shift [of y 4 "-492"] by (simp add: algebra_simps)
  have b: "(y + 1 - 1901) div 100 = (y - 1901) div 100 + (if y mod 100 = 0 then 1 else 0)"
    using div_succ [of 100 "y - 1901"] mod_shift [of y 100 "-19"] by (simp add: algebra_simps)
  have c: "(y + 1 - 1601) div 400 = (y - 1601) div 400 + (if y mod 400 = 0 then 1 else 0)"
    using div_succ [of 400 "y - 1601"] mod_shift [of y 400 "-4"] by (simp add: algebra_simps)
  show ?thesis
    unfolding DayFromYear_def DaysInYear_def a b c
    using multiple_of_100 [of y] multiple_of_400 [of y] by auto
qed

lemma DaysInYear_ge: "365 \<le> DaysInYear y"
  by (simp add: DaysInYear_def)

text \<open>
  \<open>YearFromTime\<close> is the largest year whose first day is not after the day: a search
  down from an estimate that may be too large, then up.
\<close>

function yearDown :: "int \<Rightarrow> int \<Rightarrow> int" where
  "yearDown y d = (if d < DayFromYear y then yearDown (y - 1) d else y)"
  by pat_completeness auto
termination
proof (relation "measure (\<lambda>(y, d). nat (DayFromYear y - d))")
  show "wf (measure (\<lambda>(y, d). nat (DayFromYear y - d)))" by simp
next
  fix y d :: int
  assume "d < DayFromYear y"
  moreover have "DayFromYear y = DayFromYear (y - 1) + DaysInYear (y - 1)"
    using DayFromYear_Suc [of "y - 1"] by simp
  ultimately show "((y - 1, d), (y, d)) \<in> measure (\<lambda>(y, d). nat (DayFromYear y - d))"
    using DaysInYear_ge [of "y - 1"] by simp
qed

function yearUp :: "int \<Rightarrow> int \<Rightarrow> int" where
  "yearUp y d = (if DayFromYear (y + 1) \<le> d then yearUp (y + 1) d else y)"
  by pat_completeness auto
termination
proof (relation "measure (\<lambda>(y, d). nat (d + 1 - DayFromYear (y + 1)))")
  show "wf (measure (\<lambda>(y, d). nat (d + 1 - DayFromYear (y + 1))))" by simp
next
  fix y d :: int
  assume "DayFromYear (y + 1) \<le> d"
  then show "((y + 1, d), (y, d)) \<in> measure (\<lambda>(y, d). nat (d + 1 - DayFromYear (y + 1)))"
    using DayFromYear_Suc [of "y + 1"] DaysInYear_ge [of "y + 1"] by simp
qed

definition YearFromDay :: "int \<Rightarrow> int" where
  "YearFromDay d = yearUp (yearDown (1970 + d div 365) d) d"

definition YearFromTime :: "int \<Rightarrow> int" where
  "YearFromTime t = YearFromDay (Day t)"

definition InLeapYear :: "int \<Rightarrow> int" where
  "InLeapYear t = (if DaysInYear (YearFromTime t) = 366 then 1 else 0)"

definition DayWithinYear :: "int \<Rightarrow> int" where
  "DayWithinYear t = Day t - DayFromYear (YearFromTime t)"

definition monthStart :: "int \<Rightarrow> int \<Rightarrow> int" where
  \<comment> \<open>the day within the year on which month \<open>m\<close> (0 to 11) starts; \<open>l\<close> is 1 in a leap year\<close>
  "monthStart l m =
     (if m = 0 then 0 else if m = 1 then 31
      else [59, 90, 120, 151, 181, 212, 243, 273, 304, 334] ! nat (m - 2) + l)"

definition MonthFromTime :: "int \<Rightarrow> int" where
  "MonthFromTime t =
     (let w = DayWithinYear t; l = InLeapYear t
      in if w < 31 then 0
         else if w < 59 + l then 1
         else if w < 90 + l then 2
         else if w < 120 + l then 3
         else if w < 151 + l then 4
         else if w < 181 + l then 5
         else if w < 212 + l then 6
         else if w < 243 + l then 7
         else if w < 273 + l then 8
         else if w < 304 + l then 9
         else if w < 334 + l then 10
         else 11)"

definition DateFromTime :: "int \<Rightarrow> int" where
  "DateFromTime t =
     DayWithinYear t - monthStart (InLeapYear t) (MonthFromTime t) + 1"

definition MakeDay :: "int \<Rightarrow> int \<Rightarrow> int \<Rightarrow> int" where
  \<comment> \<open>the day number of the first of the month, then \<open>dt - 1\<close> days on\<close>
  "MakeDay year month dt =
     (let ym = year + month div 12; mn = month mod 12
      in DayFromYear ym + monthStart (if DaysInYear ym = 366 then 1 else 0) mn + dt - 1)"

definition MakeDate :: "int \<Rightarrow> int \<Rightarrow> int" where
  "MakeDate day time = day * msPerDay + time"

definition getDate :: "timevalue \<Rightarrow> int option" where
  "getDate tv = map_option DateFromTime tv"

definition setDate :: "timevalue \<Rightarrow> int option \<Rightarrow> timevalue" where
  \<comment> \<open>the time value after \<open>d.setDate(dt)\<close>; a NaN argument or a NaN date gives NaN\<close>
  "setDate tv dt =
     (case (tv, dt) of
        (Some t, Some n) \<Rightarrow>
          TimeClip (MakeDate (MakeDay (YearFromTime t) (MonthFromTime t) n) (TimeWithinDay t))
      | _ \<Rightarrow> None)"

definition plusDays :: "timevalue \<Rightarrow> int \<Rightarrow> timevalue" where
  \<comment> \<open>\<open>d.setDate(d.getDate() + n)\<close>\<close>
  "plusDays tv n = setDate tv (map_option (\<lambda>g. g + n) (getDate tv))"


definition HourFromTime :: "int \<Rightarrow> int" where
  "HourFromTime t = (t div 3600000) mod 24"

definition MinFromTime :: "int \<Rightarrow> int" where
  "MinFromTime t = (t div 60000) mod 60"

definition SecFromTime :: "int \<Rightarrow> int" where
  "SecFromTime t = (t div 1000) mod 60"

definition msFromTime :: "int \<Rightarrow> int" where
  "msFromTime t = t mod 1000"

definition digit :: "int \<Rightarrow> char" where
  "digit n = char_of (48 + nat n)"

fun pad :: "nat \<Rightarrow> int \<Rightarrow> string" where
  \<comment> \<open>the last \<open>k\<close> decimal digits of a number that is not negative\<close>
  "pad 0 n = []"
| "pad (Suc k) n = pad k (n div 10) @ [digit (n mod 10)]"

datatype error = RangeError | StoreError

definition isoYear :: "int \<Rightarrow> string" where
  \<comment> \<open>four digits for the years 0 to 9999, a sign and six digits for the others\<close>
  "isoYear y =
     (if 0 \<le> y \<and> y \<le> 9999 then pad 4 y
      else (if y < 0 then ''-'' else ''+'') @ pad 6 \<bar>y\<bar>)"

definition toISOString :: "timevalue \<Rightarrow> error + string" where
  "toISOString tv =
     (case tv of
        None \<Rightarrow> Inl RangeError
      | Some t \<Rightarrow>
          Inr (isoYear (YearFromTime t) @ ''-'' @ pad 2 (MonthFromTime t + 1) @ ''-''
               @ pad 2 (DateFromTime t) @ ''T'' @ pad 2 (HourFromTime t) @ '':''
               @ pad 2 (MinFromTime t) @ '':'' @ pad 2 (SecFromTime t) @ ''.''
               @ pad 3 (msFromTime t) @ ''Z''))"

definition beforeT :: "string \<Rightarrow> string" where
  \<comment> \<open>\<open>s.split('T')[0]\<close>\<close>
  "beforeT s = takeWhile (\<lambda>c. c \<noteq> CHR ''T'') s"

fun str_lt :: "string \<Rightarrow> string \<Rightarrow> bool" where
  \<comment> \<open>\<open>a < b\<close> on strings: by code units, a proper prefix first\<close>
  "str_lt [] [] = False"
| "str_lt [] (y # ys) = True"
| "str_lt (x # xs) [] = False"
| "str_lt (x # xs) (y # ys) =
     ((of_char x :: nat) < of_char y \<or> (x = y \<and> str_lt xs ys))"

definition str_ge :: "string \<Rightarrow> string \<Rightarrow> bool" where
  \<comment> \<open>\<open>a >= b\<close> on strings\<close>
  "str_ge a b = (\<not> str_lt a b)"

text \<open>
  \<open>new Date(v)\<close>: a string is parsed and the result clipped, \<open>null\<close> is the number 0,
  \<open>undefined\<close> is NaN. \<open>Date.parse\<close> is the engine's: ECMAScript fixes it on the Date
  Time String Format and leaves every other string to the implementation, so it is a
  parameter \<open>parse\<close> of the model.
\<close>

definition new_Date :: "(string \<Rightarrow> int option) \<Rightarrow> jsval \<Rightarrow> timevalue" where
  "new_Date parse v =
     (case v of
        Undefined \<Rightarrow> None
      | Null \<Rightarrow> Some 0
      | Str s \<Rightarrow> (case parse s of None \<Rightarrow> None | Some t \<Rightarrow> TimeClip t))"

definition date_gt :: "timevalue \<Rightarrow> timevalue \<Rightarrow> bool" where
  \<comment> \<open>\<open>a > b\<close> on two Date objects: on their time values, false when one is NaN\<close>
  "date_gt a b = (case (a, b) of (Some x, Some y) \<Rightarrow> x > y | _ \<Rightarrow> False)"

text \<open>
  The date-only form \<open>YYYY-MM-DD\<close> of the Date Time String Format, which every engine
  reads as midnight UTC of that day. Other strings are not of this form; this parser
  gives NaN for them.
\<close>

definition isDigit :: "char \<Rightarrow> bool" where
  "isDigit c = (48 \<le> (of_char c :: nat) \<and> (of_char c :: nat) \<le> 57)"

definition digitVal :: "char \<Rightarrow> int" where
  "digitVal c = int (of_char c) - 48"

definition DaysInMonth :: "int \<Rightarrow> int \<Rightarrow> int" where
  \<comment> \<open>month \<open>m\<close> from 1 to 12\<close>
  "DaysInMonth y m =
     (let l = (if DaysInYear y = 366 then 1 else 0)
      in if m = 12 then 31 else monthStart l m - monthStart l (m - 1))"

definition parseDateOnly :: "string \<Rightarrow> int option" where
  "parseDateOnly s =
     (if length s = 10 \<and> s ! 4 = CHR ''-'' \<and> s ! 7 = CHR ''-''
         \<and> list_all isDigit (take 4 s @ take 2 (drop 5 s) @ drop 8 s)
      then let y = foldl (\<lambda>a c. 10 * a + digitVal c) 0 (take 4 s);
               m = foldl (\<lambda>a c. 10 * a + digitVal c) 0 (take 2 (drop 5 s));
               d = foldl (\<lambda>a c. 10 * a + digitVal c) 0 (drop 8 s)
           in if 1 \<le> m \<and> m \<le> 12 \<and> 1 \<le> d \<and> d \<le> DaysInMonth y m
              then Some (MakeDate (MakeDay y (m - 1) d) 0)
              else None
      else None)"

section \<open>The interval table\<close>

definition vaccineIntervals :: "(string \<times> int) list" where
  "vaccineIntervals =
    [(''Rabies'', 365),
     (''Canine Distemper Virus'', 365),
     (''Canine Adenovirus (Hepatitis)'', 365),
     (''Canine Parvovirus'', 365),
     (''Canine Parainfluenza Virus'', 365),
     (''Bordetella (Kennel Cough)'', 180),
     (''Leptospirosis'', 365),
     (''Canine Influenza'', 365),
     (''Lyme Disease'', 365),
     (''Feline Viral Rhinotracheitis (FHV-1)'', 365),
     (''Feline Calicivirus (FCV)'', 365),
     (''Feline Panleukopenia (FPV)'', 365),
     (''Feline Leukemia Virus (FeLV)'', 365),
     (''Feline Immunodeficiency Virus (FIV)'', 365),
     (''Chlamydophila felis'', 365),
     (''Myxomatosis'', 365),
     (''Rabbit Haemorrhagic Disease (RHDV1 & RHDV2)'', 365),
     (''Avian Polyomavirus (rare cases)'', 365),
     (''Pigeon Pox (specific species)'', 365),
     (''Spring Viremia of Carp (SVC)'', 365),
     (''Aeromonas Vaccine'', 365)]"

text \<open>
  An object with string keys, none of them an array index, as the list of its entries in
  insertion order, which is the order of \<open>Object.keys\<close> and \<open>Object.entries\<close>.
  \<open>obj[k] = v\<close> overwrites the value of a key that is there and appends a new key.
\<close>

fun objSet :: "(string \<times> 'v) list \<Rightarrow> string \<Rightarrow> 'v \<Rightarrow> (string \<times> 'v) list" where
  "objSet [] k v = [(k, v)]"
| "objSet ((k', v') # kvs) k v =
     (if k' = k then (k', v) # kvs else (k', v') # objSet kvs k v)"

definition normalizeIntervals :: "(string \<times> int) list \<Rightarrow> (string \<times> int) list" where
  \<comment> \<open>the \<open>forEach\<close> that fills \<open>normalizedIntervals\<close> from the keys of a table\<close>
  "normalizeIntervals table = foldl (\<lambda>obj (k, v). objSet obj (toLowerCase k) v) [] table"

definition normalizedIntervals :: "(string \<times> int) list" where
  "normalizedIntervals = normalizeIntervals vaccineIntervals"


section \<open>The reminder pass\<close>

record pet =
  pet_id :: string
  pet_name :: string
  vaccinations :: "entry list"

record adoption =
  adoption_petId :: string
  status :: string
  adopterEmail :: jsval

record purchase =
  purchase_petId :: string
  buyerEmail :: jsval

record mail =
  mail_from :: jsval
  mail_to :: string
  mail_subject :: string
  mail_text :: string

text \<open>
  The environment of a pass: the engine's \<open>Date.parse\<close>, the clock read by \<open>new Date()\<close>,
  \<open>process.env.MAIL_USER\<close>, the transporter (\<open>True\<close> when it delivers, \<open>False\<close> when it
  reports an error to the callback), and the three queries on the store, each of which
  may reject.
\<close>

record env =
  Date_parse :: "string \<Rightarrow> int option"
  Date_now :: int
  MAIL_USER :: jsval
  sendMail :: "mail \<Rightarrow> bool"
  findPets :: "error + pet list"
  findAdoption :: "string \<Rightarrow> error + adoption option"
  findPurchase :: "string \<Rightarrow> error + purchase option"

text \<open>
  The queries on a store that answers: \<open>find\<close> with \<open>vaccinations: {$exists: true, $ne: []}\<close>,
  and \<open>findOne\<close>, which gives the first document that matches.
\<close>

definition petsWithVaccinations :: "pet list \<Rightarrow> error + pet list" where
  "petsWithVaccinations docs = Inr (filter (\<lambda>p. vaccinations p \<noteq> []) docs)"

definition acceptedAdoption :: "adoption list \<Rightarrow> string \<Rightarrow> error + adoption option" where
  "acceptedAdoption docs pid =
     Inr (find (\<lambda>a. adoption_petId a = pid \<and> status a = ''accepted'') docs)"

definition purchaseOf :: "purchase list \<Rightarrow> string \<Rightarrow> error + purchase option" where
  "purchaseOf docs pid = Inr (find (\<lambda>p. purchase_petId p = pid) docs)"

text \<open>
  A due event is one entry into the notification branch, for one pet and one key of the
  interval table.
\<close>

record event =
  ev_pet :: pet
  ev_key :: string
  ev_latest :: vaccination
  ev_lastDate :: int
  ev_due :: string

datatype log_entry =
    NoRecipient string string string
  | EmailFailed string
  | EmailSent string
  | QueuedAdopter string string string string
  | NoAdopter string string
  | QueuedBuyer string string string string
  | NoBuyer string string
  | PassError error

text \<open>
  What a pass leaves behind: the mails handed to the transporter, the console lines, and
  the due events in the order the pass met them (the events are not stored by the code;
  they are recorded here to state properties of the pass).
\<close>

record pstate =
  outbox :: "mail list"
  logs :: "log_entry list"
  events :: "event list"

datatype outcome = Normal pstate | Thrown error pstate

definition reminderText :: "string \<Rightarrow> string \<Rightarrow> string \<Rightarrow> string" where
  "reminderText petName vType vDate =
     ''Hello,'' @ [CHR 0x0A, CHR 0x0A] @ ''This is a reminder that your pet '' @ [CHR 0x22]
     @ petName @ [CHR 0x22] @ '' needs the '' @ [CHR 0x22] @ vType @ [CHR 0x22]
     @ '' vaccine on '' @ vDate @ ''.'' @ [CHR 0x0A, CHR 0x0A] @ ''Regards,''
     @ [CHR 0x0A] @ ''PawPalace''"

definition sendReminderEmail ::
  "env \<Rightarrow> jsval \<Rightarrow> string \<Rightarrow> string \<Rightarrow> string \<Rightarrow> pstate \<Rightarrow> pstate" where
  \<comment> \<open>the callback of \<open>sendMail\<close> only writes a console line\<close>
  "sendReminderEmail E to petName vType vDate st =
     (if \<not> truthy to
      then st\<lparr>logs := logs st @ [NoRecipient petName vType vDate]\<rparr>
      else let mailOptions =
                 \<lparr>mail_from = MAIL_USER E, mail_to = String to,
                  mail_subject = ''Vaccination Reminder for '' @ petName,
                  mail_text = reminderText petName vType vDate\<rparr>
           in st\<lparr>outbox := outbox st @ [mailOptions],
                 logs := logs st @ [if sendMail E mailOptions then EmailSent (String to)
                                    else EmailFailed (String to)]\<rparr>)"

fun entriesForType :: "string \<Rightarrow> entry list \<Rightarrow> vaccination list" where
  \<comment> \<open>the \<open>filter\<close> of the entries of one pet for one key of the table\<close>
  "entriesForType vaccineKeyLower [] = []"
| "entriesForType vaccineKeyLower (None # vs) = entriesForType vaccineKeyLower vs"
| "entriesForType vaccineKeyLower (Some v # vs) =
     (if \<not> truthy (vaccineType v) \<or> \<not> truthy (date v) then entriesForType vaccineKeyLower vs
      else if vaccineKey v = vaccineKeyLower then v # entriesForType vaccineKeyLower vs
      else entriesForType vaccineKeyLower vs)"

definition later ::
  "(string \<Rightarrow> int option) \<Rightarrow> vaccination \<Rightarrow> vaccination \<Rightarrow> vaccination" where
  \<comment> \<open>the function given to \<open>reduce\<close>\<close>
  "later parse latest current =
     (if date_gt (new_Date parse (date current)) (new_Date parse (date latest))
      then current else latest)"

definition latestForType :: "(string \<Rightarrow> int option) \<Rightarrow> vaccination list \<Rightarrow> vaccination option" where
  \<comment> \<open>\<open>reduce\<close> from the first entry, over all the entries; the list is not empty where the code calls it\<close>
  "latestForType parse es =
     (case es of [] \<Rightarrow> None | e # _ \<Rightarrow> Some (foldl (later parse) e es))"

definition evalPair ::
  "(string \<Rightarrow> int option) \<Rightarrow> string \<Rightarrow> string \<Rightarrow> pet \<Rightarrow> string \<times> int \<Rightarrow> error + event option" where
  \<comment> \<open>the body of the inner loop down to the test of the window: the event, if the pair is due\<close>
  "evalPair parse tomorrowStr dayAfterTomorrowStr p kv =
     (case kv of (vaccineKeyLower, intervalDays) \<Rightarrow>
        (case latestForType parse (entriesForType vaccineKeyLower (vaccinations p)) of
           None \<Rightarrow> Inr None
         | Some latest \<Rightarrow>
             (case new_Date parse (date latest) of
                None \<Rightarrow> Inr None
              | Some lastDate \<Rightarrow>
                  (case toISOString (plusDays (Some lastDate) intervalDays) of
                     Inl err \<Rightarrow> Inl err
                   | Inr isoStr \<Rightarrow>
                       (let nextDueDateStr = beforeT isoStr
                        in if str_ge nextDueDateStr tomorrowStr
                              \<and> str_lt nextDueDateStr dayAfterTomorrowStr
                           then Inr (Some \<lparr>ev_pet = p, ev_key = vaccineKeyLower,
                                           ev_latest = latest, ev_lastDate = lastDate,
                                           ev_due = nextDueDateStr\<rparr>)
                           else Inr None)))))"

definition adopterEmailOf :: "adoption option \<Rightarrow> jsval" where
  \<comment> \<open>\<open>adoption?.adopterEmail\<close>\<close>
  "adopterEmailOf a = (case a of None \<Rightarrow> Undefined | Some r \<Rightarrow> adopterEmail r)"

definition buyerEmailOf :: "purchase option \<Rightarrow> jsval" where
  \<comment> \<open>\<open>purchase?.buyerEmail\<close>\<close>
  "buyerEmailOf b = (case b of None \<Rightarrow> Undefined | Some r \<Rightarrow> buyerEmail r)"

definition notifyAdopter :: "env \<Rightarrow> event \<Rightarrow> adoption option \<Rightarrow> pstate \<Rightarrow> pstate" where
  "notifyAdopter E ev a st =
     (let name = pet_name (ev_pet ev); vt = String (vaccineType (ev_latest ev))
      in if truthy (adopterEmailOf a)
         then (let st' = sendReminderEmail E (adopterEmailOf a) name vt (ev_due ev) st
               in st'\<lparr>logs := logs st' @ [QueuedAdopter (String (adopterEmailOf a)) name vt (ev_due ev)]\<rparr>)
         else st\<lparr>logs := logs st @ [NoAdopter name vt]\<rparr>)"

definition notifyBuyer :: "env \<Rightarrow> event \<Rightarrow> purchase option \<Rightarrow> pstate \<Rightarrow> pstate" where
  "notifyBuyer E ev b st =
     (let name = pet_name (ev_pet ev); vt = String (vaccineType (ev_latest ev))
      in if truthy (buyerEmailOf b)
         then (let st' = sendReminderEmail E (buyerEmailOf b) name vt (ev_due ev) st
               in st'\<lparr>logs := logs st' @ [QueuedBuyer (String (buyerEmailOf b)) name vt (ev_due ev)]\<rparr>)
         else st\<lparr>logs := logs st @ [NoBuyer name vt]\<rparr>)"

definition dispatch :: "env \<Rightarrow> event \<Rightarrow> pstate \<Rightarrow> outcome" where
  \<comment> \<open>the notification branch: the two lookups and the reminders; a query that rejects throws\<close>
  "dispatch E ev st =
     (case findAdoption E (pet_id (ev_pet ev)) of
        Inl err \<Rightarrow> Thrown err st
      | Inr a \<Rightarrow>
          (let st1 = notifyAdopter E ev a st
           in case findPurchase E (pet_id (ev_pet ev)) of
                Inl err \<Rightarrow> Thrown err st1
              | Inr b \<Rightarrow> Normal (notifyBuyer E ev b st1)))"

fun forIntervals ::
  "env \<Rightarrow> string \<Rightarrow> string \<Rightarrow> pet \<Rightarrow> (string \<times> int) list \<Rightarrow> pstate \<Rightarrow> outcome" where
  \<comment> \<open>the inner loop, over the entries of the table\<close>
  "forIntervals E tomorrowStr dayAfterTomorrowStr p [] st = Normal st"
| "forIntervals E tomorrowStr dayAfterTomorrowStr p (kv # kvs) st =
     (case evalPair (Date_parse E) tomorrowStr dayAfterTomorrowStr p kv of
        Inl err \<Rightarrow> Thrown err st
      | Inr None \<Rightarrow> forIntervals E tomorrowStr dayAfterTomorrowStr p kvs st
      | Inr (Some ev) \<Rightarrow>
          (case dispatch E ev (st\<lparr>events := events st @ [ev]\<rparr>) of
             Thrown err st' \<Rightarrow> Thrown err st'
           | Normal st' \<Rightarrow> forIntervals E tomorrowStr dayAfterTomorrowStr p kvs st'))"

fun forPets ::
  "env \<Rightarrow> (string \<times> int) list \<Rightarrow> string \<Rightarrow> string \<Rightarrow> pet list \<Rightarrow> pstate \<Rightarrow> outcome" where
  \<comment> \<open>the outer loop, over the pets\<close>
  "forPets E intervals tomorrowStr dayAfterTomorrowStr [] st = Normal st"
| "forPets E intervals tomorrowStr dayAfterTomorrowStr (p # ps) st =
     (case forIntervals E tomorrowStr dayAfterTomorrowStr p intervals st of
        Thrown err st' \<Rightarrow> Thrown err st'
      | Normal st' \<Rightarrow> forPets E intervals tomorrowStr dayAfterTomorrowStr ps st')"

definition reminderBody :: "env \<Rightarrow> (string \<times> int) list \<Rightarrow> pstate \<Rightarrow> outcome" where
  \<comment> \<open>the \<open>try\<close> block of the pass\<close>
  "reminderBody E intervals st =
     (let tomorrow = plusDays (Some (Date_now E)) 1
      in case toISOString tomorrow of
           Inl err \<Rightarrow> Thrown err st
         | Inr iso1 \<Rightarrow>
             (let tomorrowStr = beforeT iso1;
                  dayAfterTomorrow = plusDays tomorrow 1
              in case toISOString dayAfterTomorrow of
                   Inl err \<Rightarrow> Thrown err st
                 | Inr iso2 \<Rightarrow>
                     (let dayAfterTomorrowStr = beforeT iso2
                      in case findPets E of
                           Inl err \<Rightarrow> Thrown err st
                         | Inr pets \<Rightarrow>
                             forPets E intervals tomorrowStr dayAfterTomorrowStr pets st)))"

definition remindersWith :: "(string \<times> int) list \<Rightarrow> env \<Rightarrow> pstate \<Rightarrow> pstate" where
  \<comment> \<open>the pass over a given table: the \<open>catch\<close> writes the error to the console and the pass returns\<close>
  "remindersWith intervals E st =
     (case reminderBody E intervals st of
        Normal st' \<Rightarrow> st'
      | Thrown err st' \<Rightarrow> st'\<lparr>logs := logs st' @ [PassError err]\<rparr>)"

definition sendVaccinationReminders :: "env \<Rightarrow> pstate \<Rightarrow> pstate" where
  "sendVaccinationReminders E st = remindersWith normalizedIntervals E st"

definition emptyState :: pstate where
  "emptyState = \<lparr>outbox = [], logs = [], events = []\<rparr>"

section \<open>Notions used to state the properties\<close>

text \<open>The entries of an input array that pass the guard of the normalizer, in order.\<close>

fun typedEntries :: "entry list \<Rightarrow> vaccination list" where
  "typedEntries [] = []"
| "typedEntries (None # vs) = typedEntries vs"
| "typedEntries (Some v # vs) =
     (if truthy (vaccineType v) then v # typedEntries vs else typedEntries vs)"

definition normalized :: "vaccination \<Rightarrow> vaccination" where
  \<comment> \<open>the object the normalizer pushes for an entry it keeps\<close>
  "normalized v = \<lparr>vaccineType = Str (trim (String (vaccineType v))), date = date v\<rparr>"

fun firstSeen :: "string set \<Rightarrow> vaccination list \<Rightarrow> vaccination list" where
  \<comment> \<open>the entries whose key is neither in \<open>seen\<close> nor the key of an entry before them\<close>
  "firstSeen seen [] = []"
| "firstSeen seen (v # vs) =
     (if vaccineKey v \<in> seen then firstSeen seen vs
      else v # firstSeen (insert (vaccineKey v) seen) vs)"

definition entryKey :: "entry \<Rightarrow> string option" where
  "entryKey e = map_option vaccineKey e"

definition blankEntry :: entry where
  \<comment> \<open>an entry whose vaccine type is three spaces\<close>
  "blankEntry = Some \<lparr>vaccineType = Str ''   '', date = Str ''2024-01-10''\<rparr>"

definition isoDate :: "int \<Rightarrow> string" where
  "isoDate t =
     isoYear (YearFromTime t) @ ''-'' @ pad 2 (MonthFromTime t + 1) @ ''-''
     @ pad 2 (DateFromTime t)"

definition monthOf :: "int \<Rightarrow> int \<Rightarrow> int" where
  "monthOf w l =
     (if w < 31 then 0
      else if w < 59 + l then 1
      else if w < 90 + l then 2
      else if w < 120 + l then 3
      else if w < 151 + l then 4
      else if w < 181 + l then 5
      else if w < 212 + l then 6
      else if w < 243 + l then 7
      else if w < 273 + l then 8
      else if w < 304 + l then 9
      else if w < 334 + l then 10
      else 11)"

definition inRange :: "int \<Rightarrow> bool" where
  "inRange t = (\<bar>t\<bar> \<le> 8640000000000000)"

definition stateOf :: "outcome \<Rightarrow> pstate" where
  "stateOf r = (case r of Normal st \<Rightarrow> st | Thrown err st \<Rightarrow> st)"

definition rabiesTable :: "(string \<times> int) list" where
  "rabiesTable = [(''Rabies'', 365)]"

definition bella :: "string \<Rightarrow> pet" where
  \<comment> \<open>a pet with one Rabies dose on the given date\<close>
  "bella d = \<lparr>pet_id = ''p1'', pet_name = ''Bella'',
              vaccinations = [Some \<lparr>vaccineType = Str ''Rabies'', date = Str d\<rparr>]\<rparr>"

definition bellaEnv :: "string \<Rightarrow> int \<Rightarrow> env" where
  \<comment> \<open>a store that holds that pet only, read at the time \<open>now\<close>\<close>
  "bellaEnv d now =
     \<lparr>Date_parse = parseDateOnly, Date_now = now, MAIL_USER = Str ''pawpalace@example.com'',
      sendMail = (\<lambda>m. True), findPets = petsWithVaccinations [bella d],
      findAdoption = acceptedAdoption [], findPurchase = purchaseOf []\<rparr>"

definition reminderTo :: "env \<Rightarrow> event \<Rightarrow> jsval \<Rightarrow> mail list" where
  \<comment> \<open>the reminder of an event for an address: one mail, or none when the address is missing or empty\<close>
  "reminderTo E ev to =
     (if truthy to
      then [\<lparr>mail_from = MAIL_USER E, mail_to = String to,
             mail_subject = ''Vaccination Reminder for '' @ pet_name (ev_pet ev),
             mail_text = reminderText (pet_name (ev_pet ev))
                           (String (vaccineType (ev_latest ev))) (ev_due ev)\<rparr>]
      else [])"

definition adopterMails :: "env \<Rightarrow> event \<Rightarrow> mail list" where
  \<comment> \<open>the mail to the adopter that the notification branch sends for an event\<close>
  "adopterMails E ev =
     (case findAdoption E (pet_id (ev_pet ev)) of
        Inl err \<Rightarrow> []
      | Inr a \<Rightarrow> reminderTo E ev (adopterEmailOf a))"

definition buyerMails :: "env \<Rightarrow> event \<Rightarrow> mail list" where
  \<comment> \<open>the mail to the buyer; the branch does not reach it when the adoption lookup rejects\<close>
  "buyerMails E ev =
     (case findAdoption E (pet_id (ev_pet ev)) of
        Inl err \<Rightarrow> []
      | Inr a \<Rightarrow>
          (case findPurchase E (pet_id (ev_pet ev)) of
             Inl err \<Rightarrow> []
           | Inr b \<Rightarrow> reminderTo E ev (buyerEmailOf b)))"

definition storeEnv :: "pet list \<Rightarrow> adoption list \<Rightarrow> purchase list \<Rightarrow> int \<Rightarrow> env" where
  \<comment> \<open>a store that answers every query, read at the time \<open>now\<close>\<close>
  "storeEnv pets adoptions purchases now =
     \<lparr>Date_parse = parseDateOnly, Date_now = now, MAIL_USER = Str ''pawpalace@example.com'',
      sendMail = (\<lambda>m. True), findPets = petsWithVaccinations pets,
      findAdoption = acceptedAdoption adoptions, findPurchase = purchaseOf purchases\<rparr>"

definition rabiesEvent :: event where
  "rabiesEvent =
     \<lparr>ev_pet = bella ''2024-01-10'', ev_key = ''rabies'',
      ev_latest = \<lparr>vaccineType = Str ''Rabies'', date = Str ''2024-01-10''\<rparr>,
      ev_lastDate = 1704844800000, ev_due = ''2025-01-09''\<rparr>"

definition pairOf :: "event \<Rightarrow> string \<times> string" where
  \<comment> \<open>the pet and the key of the table that an event is for\<close>
  "pairOf ev = (pet_id (ev_pet ev), ev_key ev)"

definition dispatchMails :: "env \<Rightarrow> event \<Rightarrow> mail list" where
  "dispatchMails E ev = adopterMails E ev @ buyerMails E ev"

definition traced :: "env \<Rightarrow> pstate \<Rightarrow> pstate \<Rightarrow> event list \<Rightarrow> bool" where
  \<comment> \<open>from one state to a later one, the pass met the events \<open>evs\<close> and sent their mails\<close>
  "traced E st st' evs =
     (events st' = events st @ evs
      \<and> outbox st' = outbox st @ concat (map (dispatchMails E) evs))"

definition maxPet :: pet where
  "maxPet = \<lparr>pet_id = ''p2'', pet_name = ''Max'',
             vaccinations = [Some \<lparr>vaccineType = Str ''rabies '', date = Str ''2024-01-10''\<rparr>]\<rparr>"

definition shelter :: env where
  \<comment> \<open>two pets with a Rabies dose of 2024-01-10, read on 2025-01-08 at 09:00 UTC\<close>
  "shelter =
     storeEnv [bella ''2024-01-10'', maxPet]
       [\<lparr>adoption_petId = ''p1'', status = ''accepted'', adopterEmail = Str ''a@example.com''\<rparr>,
        \<lparr>adoption_petId = ''p2'', status = ''accepted'', adopterEmail = Str ''c@example.com''\<rparr>]
       [\<lparr>purchase_petId = ''p1'', buyerEmail = Str ''b@example.com''\<rparr>]
       1736326800000"

definition brokenShelter :: env where
  \<comment> \<open>the same store, whose adoption lookup rejects for the first pet\<close>
  "brokenShelter =
     shelter\<lparr>findAdoption :=
       (\<lambda>pid. if pid = ''p1'' then Inl StoreError else findAdoption shelter pid)\<rparr>"

definition rex :: pet where
  \<comment> \<open>two Rabies entries, the first with a date that no engine parses\<close>
  "rex = \<lparr>pet_id = ''p3'', pet_name = ''Rex'',
          vaccinations = [Some \<lparr>vaccineType = Str ''Rabies'', date = Str ''unknown''\<rparr>,
                          Some \<lparr>vaccineType = Str ''Rabies'', date = Str ''2024-01-10''\<rparr>]\<rparr>"

definition quiet :: "pstate \<Rightarrow> pstate" where
  \<comment> \<open>a state without its console lines\<close>
  "quiet st = st\<lparr>logs := []\<rparr>"

definition quietOutcome :: "outcome \<Rightarrow> outcome" where
  "quietOutcome r =
     (case r of Normal st \<Rightarrow> Normal (quiet st) | Thrown err st \<Rightarrow> Thrown err (quiet st))"

section \<open>The normalizer\<close>

lemma trimEnd_split: "\<exists>ws. s = trimEnd s @ ws \<and> (\<forall>c\<in>set ws. isWhiteSpace c)"
proof -
  have "rev s = takeWhile isWhiteSpace (rev s) @ dropWhile isWhiteSpace (rev s)" by simp
  then have "s = rev (dropWhile isWhiteSpace (rev s)) @ rev (takeWhile isWhiteSpace (rev s))"
    by (metis rev_append rev_rev_ident)
  moreover have "\<forall>c\<in>set (rev (takeWhile isWhiteSpace (rev s))). isWhiteSpace c"
    by (auto dest: set_takeWhileD)
  ultimately show ?thesis unfolding trimEnd_def by blast
qed

lemma trimEnd_idem: "trimEnd (trimEnd s) = trimEnd s"
  by (simp add: trimEnd_def)

lemma trimStart_trimEnd:
  assumes "trimStart u = u"
  shows "trimStart (trimEnd u) = trimEnd u"
proof (cases "trimEnd u = []")
  case True
  then show ?thesis by (simp add: trimStart_def)
next
  case False
  obtain ws where ws: "u = trimEnd u @ ws" using trimEnd_split by blast
  then have h: "hd u = hd (trimEnd u)" using False by (metis hd_append2)
  have "u \<noteq> []" using ws False by auto
  then have "\<not> isWhiteSpace (hd u)"
    using assms by (simp add: trimStart_def dropWhile_eq_self_iff)
  then show ?thesis using h by (simp add: trimStart_def dropWhile_eq_self_iff)
qed

lemma trim_idem: "trim (trim s) = trim s"
proof -
  have "trimStart (trimStart s) = trimStart s" by (simp add: trimStart_def)
  then have "trimStart (trim s) = trim s"
    unfolding trim_def by (rule trimStart_trimEnd)
  then show ?thesis by (simp add: trim_def trimEnd_idem)
qed

lemma vaccineKey_normalized: "vaccineKey (normalized v) = vaccineKey v"
  by (simp add: vaccineKey_def normalized_def trim_idem)

lemma dedupeLoop_firstSeen:
  "dedupeLoop xs seen unique =
     unique @ map (\<lambda>v. Some (normalized v)) (firstSeen seen (typedEntries xs))"
proof (induction xs seen unique rule: dedupeLoop.induct)
  case (1 seen unique)
  then show ?case by simp
next
  case (2 vs seen unique)
  then show ?case by simp
next
  case (3 v vs seen unique)
  then show ?case by (simp add: Let_def normalized_def)
qed

lemma filter_firstSeen:
  "filter (\<lambda>v. vaccineKey v = k) (firstSeen seen vs) =
     (if k \<in> seen then []
      else case find (\<lambda>v. vaccineKey v = k) vs of None \<Rightarrow> [] | Some v \<Rightarrow> [v])"
  by (induction vs arbitrary: seen) auto

lemma filter_entryKey_map:
  "filter (\<lambda>e. entryKey e = Some k) (map (\<lambda>v. Some (normalized v)) vs) =
     map (\<lambda>v. Some (normalized v)) (filter (\<lambda>v. vaccineKey v = k) vs)"
  by (induction vs) (auto simp: entryKey_def vaccineKey_normalized)

text \<open>
  Claim C3. Every element of the normalizer's output is an object, and for every key
  (trimmed, lower-cased vaccine type) the output holds exactly one entry with that key
  when some input entry with a vaccine type has it, and none otherwise. That entry comes
  from the first such input entry in input order, whatever the dates: its vaccine type
  is that entry's, trimmed and in its own casing, and its date is that entry's.
\<close>

theorem dedupe_first_seen_wins:
  "None \<notin> set (dedupeVaccinationsArray xs) \<and>
   filter (\<lambda>e. entryKey e = Some k) (dedupeVaccinationsArray xs) =
     (case find (\<lambda>v. vaccineKey v = k) (typedEntries xs) of
        None \<Rightarrow> []
      | Some v \<Rightarrow> [Some \<lparr>vaccineType = Str (trim (String (vaccineType v))), date = date v\<rparr>])"
proof -
  have "filter (\<lambda>e. entryKey e = Some k) (dedupeVaccinationsArray xs) =
          map (\<lambda>v. Some (normalized v))
            (case find (\<lambda>v. vaccineKey v = k) (typedEntries xs) of None \<Rightarrow> [] | Some v \<Rightarrow> [v])"
    by (simp add: dedupeVaccinationsArray_def dedupeLoop_firstSeen filter_entryKey_map
        filter_firstSeen)
  moreover have "None \<notin> set (dedupeVaccinationsArray xs)"
    by (auto simp: dedupeVaccinationsArray_def dedupeLoop_firstSeen)
  ultimately show ?thesis
    by (simp add: normalized_def split: option.splits)
qed

theorem dedupe_first_seen_wins_witness:
  "filter (\<lambda>e. entryKey e = Some ''rabies'')
     (dedupeVaccinationsArray
        [Some \<lparr>vaccineType = Str '' Rabies '', date = Str ''2024-01-10''\<rparr>,
         None,
         Some \<lparr>vaccineType = Null, date = Str ''2024-03-03''\<rparr>,
         Some \<lparr>vaccineType = Str ''RABIES'', date = Str ''2025-02-02''\<rparr>]) =
   [Some \<lparr>vaccineType = Str ''Rabies'', date = Str ''2024-01-10''\<rparr>]"
proof -
  have "find (\<lambda>v. vaccineKey v = ''rabies'')
          (typedEntries
             [Some \<lparr>vaccineType = Str '' Rabies '', date = Str ''2024-01-10''\<rparr>,
              None,
              Some \<lparr>vaccineType = Null, date = Str ''2024-03-03''\<rparr>,
              Some \<lparr>vaccineType = Str ''RABIES'', date = Str ''2025-02-02''\<rparr>]) =
        Some \<lparr>vaccineType = Str '' Rabies '', date = Str ''2024-01-10''\<rparr>"
    by code_simp
  moreover have "trim '' Rabies '' = ''Rabies''"
    by code_simp
  ultimately show ?thesis
    using dedupe_first_seen_wins
      [of "[Some \<lparr>vaccineType = Str '' Rabies '', date = Str ''2024-01-10''\<rparr>,
            None,
            Some \<lparr>vaccineType = Null, date = Str ''2024-03-03''\<rparr>,
            Some \<lparr>vaccineType = Str ''RABIES'', date = Str ''2025-02-02''\<rparr>]" "''rabies''"]
    by simp
qed

text \<open>
  Claim C7. An entry whose vaccine type is only white space passes the guard, which is
  tested before the trim: the normalizer keeps it, with the empty string as its vaccine
  type.
\<close>

theorem dedupe_keeps_blank_type:
  "dedupeVaccinationsArray [blankEntry] =
     [Some \<lparr>vaccineType = Str [], date = Str ''2024-01-10''\<rparr>]"
  by code_simp

text \<open>
  Claim C10. Normalizing the output of the normalizer for that entry gives the empty
  array, not the output again: the guard drops the entry whose type the first run
  trimmed to the empty string.
\<close>

theorem dedupe_twice_differs:
  "dedupeVaccinationsArray (dedupeVaccinationsArray [blankEntry]) = [] \<and>
   dedupeVaccinationsArray [blankEntry] \<noteq> []"
  by code_simp

section \<open>The calendar\<close>

lemma DayFromYear_mono_aux: "0 \<le> k \<Longrightarrow> DayFromYear y + 365 * k \<le> DayFromYear (y + k)"
proof (induction k rule: int_ge_induct)
  case base
  then show ?case by simp
next
  case (step i)
  have "DayFromYear (y + (i + 1)) = DayFromYear (y + i) + DaysInYear (y + i)"
    using DayFromYear_Suc [of "y + i"] by (simp add: add.assoc)
  then show ?case using step DaysInYear_ge [of "y + i"] by simp
qed

lemma DayFromYear_mono: "y \<le> y' \<Longrightarrow> DayFromYear y \<le> DayFromYear y'"
  using DayFromYear_mono_aux [of "y' - y" y] by simp

lemma DayFromYear_strict: "y < y' \<Longrightarrow> DayFromYear (y + 1) \<le> DayFromYear y'"
  using DayFromYear_mono [of "y + 1" y'] by simp

lemma yearDown_le: "DayFromYear (yearDown y d) \<le> d"
proof (induction y d rule: yearDown.induct)
  case (1 y d)
  show ?case
  proof (cases "d < DayFromYear y")
    case True
    then show ?thesis using 1 by (subst yearDown.simps) simp
  next
    case False
    then show ?thesis by (subst yearDown.simps) simp
  qed
qed

lemma yearUp_bounds:
  "DayFromYear y \<le> d \<Longrightarrow>
     DayFromYear (yearUp y d) \<le> d \<and> d < DayFromYear (yearUp y d + 1)"
proof (induction y d rule: yearUp.induct)
  case (1 y d)
  show ?case
  proof (cases "DayFromYear (y + 1) \<le> d")
    case True
    then show ?thesis using 1 by (subst (1 2) yearUp.simps) simp
  next
    case False
    then show ?thesis using 1 by (subst (1 2) yearUp.simps) simp
  qed
qed

lemma YearFromDay_bounds:
  "DayFromYear (YearFromDay d) \<le> d \<and> d < DayFromYear (YearFromDay d + 1)"
  unfolding YearFromDay_def by (rule yearUp_bounds) (rule yearDown_le)

lemma YearFromDay_unique:
  assumes "DayFromYear y \<le> d" and "d < DayFromYear (y + 1)"
  shows "YearFromDay d = y"
proof (rule ccontr)
  assume ne: "YearFromDay d \<noteq> y"
  have b: "DayFromYear (YearFromDay d) \<le> d" "d < DayFromYear (YearFromDay d + 1)"
    using YearFromDay_bounds by simp_all
  show False
  proof (cases "YearFromDay d < y")
    case True
    then show ?thesis using DayFromYear_strict [of "YearFromDay d" y] b assms by simp
  next
    case False
    then have "y < YearFromDay d" using ne by simp
    then show ?thesis using DayFromYear_strict [of y "YearFromDay d"] b assms by simp
  qed
qed

lemma YearFromDay_mono: "d \<le> d' \<Longrightarrow> YearFromDay d \<le> YearFromDay d'"
proof (rule ccontr)
  assume le: "d \<le> d'" and "\<not> YearFromDay d \<le> YearFromDay d'"
  then have "YearFromDay d' < YearFromDay d" by simp
  then have "DayFromYear (YearFromDay d' + 1) \<le> DayFromYear (YearFromDay d)"
    by (rule DayFromYear_strict)
  then show False using YearFromDay_bounds [of d] YearFromDay_bounds [of d'] le by simp
qed

lemma msPerDay_pos: "0 < msPerDay"
  by (simp add: msPerDay_def)

lemma Day_plus: "Day (t + n * msPerDay) = Day t + n"
  using msPerDay_pos by (simp add: Day_def)

lemma TimeWithinDay_plus: "TimeWithinDay (t + n * msPerDay) = TimeWithinDay t"
  by (simp add: TimeWithinDay_def)

lemma MonthFromTime_range: "0 \<le> MonthFromTime t \<and> MonthFromTime t \<le> 11"
  by (simp add: MonthFromTime_def Let_def)

lemma MakeDay_DateFromTime:
  "MakeDay (YearFromTime t) (MonthFromTime t) (DateFromTime t + n) = Day t + n"
proof -
  have "MonthFromTime t div 12 = 0" "MonthFromTime t mod 12 = MonthFromTime t"
    using MonthFromTime_range [of t] by simp_all
  then show ?thesis
    by (simp add: MakeDay_def DateFromTime_def DayWithinYear_def InLeapYear_def Let_def)
qed

lemma plusDays_Some: "plusDays (Some t) n = TimeClip (t + n * msPerDay)"
proof -
  have "(Day t + n) * msPerDay + TimeWithinDay t = t + n * msPerDay"
    by (simp add: Day_def TimeWithinDay_def algebra_simps)
  then show ?thesis
    by (simp add: plusDays_def setDate_def getDate_def MakeDay_DateFromTime MakeDate_def)
qed

lemma of_char_digit: "0 \<le> n \<Longrightarrow> n < 10 \<Longrightarrow> (of_char (digit n) :: nat) = 48 + nat n"
  by (simp add: digit_def)

lemma digit_not_T: "digit (n mod 10) \<noteq> CHR ''T''"
proof
  assume "digit (n mod 10) = CHR ''T''"
  then have "(of_char (digit (n mod 10)) :: nat) = of_char CHR ''T''" by simp
  then show False using of_char_digit [of "n mod 10"] by simp
qed

lemma digit_not_minus: "digit (n mod 10) \<noteq> CHR ''-''"
proof
  assume "digit (n mod 10) = CHR ''-''"
  then have "(of_char (digit (n mod 10)) :: nat) = of_char CHR ''-''" by simp
  then show False using of_char_digit [of "n mod 10"] by simp
qed

lemma pad_no_T: "CHR ''T'' \<notin> set (pad k n)"
  by (induction k arbitrary: n) (auto simp: digit_not_T [symmetric])

lemma length_pad: "length (pad k n) = k"
  by (induction k arbitrary: n) auto

lemma isoYear_no_T: "CHR ''T'' \<notin> set (isoYear y)"
  by (simp add: isoYear_def pad_no_T)

lemma isoDate_no_T: "CHR ''T'' \<notin> set (isoDate t)"
  by (simp add: isoDate_def isoYear_no_T pad_no_T)

lemma takeWhile_stop: "c \<notin> set xs \<Longrightarrow> takeWhile (\<lambda>x. x \<noteq> c) (xs @ c # ys) = xs"
  by (induction xs) auto

lemma beforeT_toISOString: "toISOString (Some t) = Inr s \<Longrightarrow> beforeT s = isoDate t"
proof -
  assume "toISOString (Some t) = Inr s"
  then have "s = isoDate t @ CHR ''T'' # (pad 2 (HourFromTime t) @ '':''
               @ pad 2 (MinFromTime t) @ '':'' @ pad 2 (SecFromTime t) @ ''.''
               @ pad 3 (msFromTime t) @ ''Z'')"
    by (auto simp: toISOString_def isoDate_def)
  then show ?thesis
    unfolding beforeT_def using takeWhile_stop [OF isoDate_no_T] by simp
qed

lemma toISOString_Some: "\<exists>s. toISOString (Some t) = Inr s"
  by (simp add: toISOString_def)

lemma isoDate_cong: "Day t = Day t' \<Longrightarrow> isoDate t = isoDate t'"
  by (simp add: isoDate_def YearFromTime_def MonthFromTime_def DateFromTime_def
      DayWithinYear_def InLeapYear_def)

lemma str_lt_irrefl: "\<not> str_lt a a"
  by (induction a) auto

lemma str_lt_append_same: "str_lt (a @ x) (a @ y) = str_lt x y"
  by (induction a) auto

lemma str_lt_append_lt: "length a = length b \<Longrightarrow> str_lt a b \<Longrightarrow> str_lt (a @ x) (b @ y)"
  by (induction a b rule: list_induct2) auto

lemma pad_lt: "0 \<le> a \<Longrightarrow> a < b \<Longrightarrow> b < 10 ^ k \<Longrightarrow> str_lt (pad k a) (pad k b)"
proof (induction k arbitrary: a b)
  case 0
  then show ?case by simp
next
  case (Suc k)
  have le: "a div 10 \<le> b div 10" using Suc.prems by (simp add: zdiv_mono1)
  have nn: "0 \<le> a div 10" using Suc.prems by simp
  have ub: "b div 10 < 10 ^ k" using Suc.prems by simp
  show ?case
  proof (cases "a div 10 < b div 10")
    case True
    then have "str_lt (pad k (a div 10)) (pad k (b div 10))"
      using Suc.IH nn ub by simp
    then show ?thesis by (simp add: str_lt_append_lt length_pad)
  next
    case False
    then have eq: "a div 10 = b div 10" using le by simp
    have "a = 10 * (a div 10) + a mod 10" "b = 10 * (b div 10) + b mod 10" by simp_all
    then have "a mod 10 < b mod 10" using eq Suc.prems(2) by linarith
    then have "(of_char (digit (a mod 10)) :: nat) < of_char (digit (b mod 10))"
      by (simp add: of_char_digit)
    then show ?thesis using eq by (simp add: str_lt_append_same)
  qed
qed

lemma MonthFromTime_monthOf: "MonthFromTime t = monthOf (DayWithinYear t) (InLeapYear t)"
  by (simp add: MonthFromTime_def monthOf_def Let_def)

lemma monthStart_simps:
  "monthStart l 0 = 0" "monthStart l 1 = 31" "monthStart l 2 = 59 + l" "monthStart l 3 = 90 + l"
  "monthStart l 4 = 120 + l" "monthStart l 5 = 151 + l" "monthStart l 6 = 181 + l"
  "monthStart l 7 = 212 + l" "monthStart l 8 = 243 + l" "monthStart l 9 = 273 + l"
  "monthStart l 10 = 304 + l" "monthStart l 11 = 334 + l"
  by (simp_all add: monthStart_def)

lemma monthOf_cases:
  "monthOf w l \<in> {0, 1, 2, 3, 4, 5, 6, 7, 8, 9, 10, 11}"
  by (simp add: monthOf_def)

lemma monthOf_bounds:
  assumes "l = 0 \<or> l = 1" "0 \<le> w" "w < 365 + l"
  shows "monthStart l (monthOf w l) \<le> w \<and> w < monthStart l (monthOf w l) + 31"
  using assms unfolding monthOf_def by (auto simp: monthStart_simps)

lemma monthOf_step:
  assumes "l = 0 \<or> l = 1" "0 \<le> w" "w + 1 < 365 + l"
  shows "monthOf (w + 1) l = monthOf w l \<or> 
         (monthOf (w + 1) l = monthOf w l + 1 \<and> monthStart l (monthOf (w + 1) l) = w + 1)"
  using assms unfolding monthOf_def by (auto simp: monthStart_simps)

lemma InLeapYear_cases: "InLeapYear t = 0 \<or> InLeapYear t = 1"
  by (simp add: InLeapYear_def)

lemma DaysInYear_InLeapYear: "DaysInYear (YearFromTime t) = 365 + InLeapYear t"
  by (simp add: InLeapYear_def DaysInYear_def)

lemma DayWithinYear_bounds: "0 \<le> DayWithinYear t \<and> DayWithinYear t < 365 + InLeapYear t"
proof -
  have "DayFromYear (YearFromTime t) \<le> Day t" "Day t < DayFromYear (YearFromTime t + 1)"
    using YearFromDay_bounds [of "Day t"] by (simp_all add: YearFromTime_def)
  then show ?thesis
    using DayFromYear_Suc [of "YearFromTime t"] DaysInYear_InLeapYear [of t]
    by (simp add: DayWithinYear_def)
qed

lemma DateFromTime_bounds: "1 \<le> DateFromTime t \<and> DateFromTime t \<le> 31"
  using monthOf_bounds [of "InLeapYear t" "DayWithinYear t"] InLeapYear_cases [of t]
    DayWithinYear_bounds [of t]
  by (simp add: DateFromTime_def MonthFromTime_monthOf)

lemma isoDate_same_year:
  assumes y: "YearFromTime t' = YearFromTime t"
    and lt: "MonthFromTime t < MonthFromTime t'
             \<or> (MonthFromTime t = MonthFromTime t' \<and> DateFromTime t < DateFromTime t')"
  shows "str_lt (isoDate t) (isoDate t')"
proof -
  have m: "0 \<le> MonthFromTime t + 1" "MonthFromTime t' + 1 < 10 ^ 2"
    using MonthFromTime_range [of t] MonthFromTime_range [of t'] by simp_all
  have d: "0 \<le> DateFromTime t" "DateFromTime t' < 10 ^ 2"
    using DateFromTime_bounds [of t] DateFromTime_bounds [of t'] by simp_all
  have "str_lt (pad 2 (MonthFromTime t + 1) @ ''-'' @ pad 2 (DateFromTime t))
               (pad 2 (MonthFromTime t' + 1) @ ''-'' @ pad 2 (DateFromTime t'))"
  proof (cases "MonthFromTime t < MonthFromTime t'")
    case True
    then have "str_lt (pad 2 (MonthFromTime t + 1)) (pad 2 (MonthFromTime t' + 1))"
      using m by (intro pad_lt) simp_all
    then show ?thesis by (intro str_lt_append_lt) (simp_all add: length_pad)
  next
    case False
    then have e: "MonthFromTime t = MonthFromTime t'" "DateFromTime t < DateFromTime t'"
      using lt by simp_all
    have "str_lt (pad 2 (DateFromTime t)) (pad 2 (DateFromTime t'))"
      using d e by (intro pad_lt) simp_all
    then show ?thesis using e by (simp add: str_lt_append_same)
  qed
  then have "str_lt (''-'' @ pad 2 (MonthFromTime t + 1) @ ''-'' @ pad 2 (DateFromTime t))
               (''-'' @ pad 2 (MonthFromTime t' + 1) @ ''-'' @ pad 2 (DateFromTime t'))"
    by simp
  then show ?thesis
    unfolding isoDate_def y by (simp only: str_lt_append_same)
qed

lemma isoDate_next_year:
  assumes y: "YearFromTime t' = YearFromTime t + 1"
    and r: "0 \<le> YearFromTime t" "YearFromTime t' \<le> 9999"
  shows "str_lt (isoDate t) (isoDate t')"
proof -
  have "str_lt (pad 4 (YearFromTime t)) (pad 4 (YearFromTime t'))"
    using y r by (intro pad_lt) simp_all
  moreover have "isoYear (YearFromTime t) = pad 4 (YearFromTime t)"
    "isoYear (YearFromTime t') = pad 4 (YearFromTime t')"
    using y r by (simp_all add: isoYear_def)
  ultimately show ?thesis
    unfolding isoDate_def by (intro str_lt_append_lt) (simp_all add: length_pad)
qed

lemma isoDate_next_day:
  assumes n: "Day t' = Day t + 1"
    and r: "0 \<le> YearFromTime t" "YearFromTime t' \<le> 9999"
  shows "str_lt (isoDate t) (isoDate t')"
proof -
  let ?y = "YearFromTime t"
  have b: "DayFromYear ?y \<le> Day t" "Day t < DayFromYear (?y + 1)"
    using YearFromDay_bounds [of "Day t"] by (simp_all add: YearFromTime_def)
  show ?thesis
  proof (cases "Day t + 1 < DayFromYear (?y + 1)")
    case True
    then have y: "YearFromTime t' = ?y"
      using b n YearFromDay_unique [of ?y "Day t'"] by (simp add: YearFromTime_def)
    then have w: "DayWithinYear t' = DayWithinYear t + 1" and l: "InLeapYear t' = InLeapYear t"
      using n by (simp_all add: DayWithinYear_def InLeapYear_def)
    have wb: "0 \<le> DayWithinYear t" "DayWithinYear t + 1 < 365 + InLeapYear t"
      using DayWithinYear_bounds [of t] DayWithinYear_bounds [of t'] w l by simp_all
    have "MonthFromTime t < MonthFromTime t'
          \<or> (MonthFromTime t = MonthFromTime t' \<and> DateFromTime t < DateFromTime t')"
      using monthOf_step [OF InLeapYear_cases [of t] wb]
      by (auto simp: MonthFromTime_monthOf DateFromTime_def w l)
    with y show ?thesis by (rule isoDate_same_year)
  next
    case False
    then have e: "Day t' = DayFromYear (?y + 1)" using b n by simp
    have "DayFromYear (?y + 1 + 1) = DayFromYear (?y + 1) + DaysInYear (?y + 1)"
      by (rule DayFromYear_Suc)
    then have "Day t' < DayFromYear (?y + 1 + 1)"
      using e DaysInYear_ge [of "?y + 1"] by simp
    then have "YearFromTime t' = ?y + 1"
      using e YearFromDay_unique [of "?y + 1" "Day t'"] by (simp add: YearFromTime_def)
    then show ?thesis using r by (rule isoDate_next_year)
  qed
qed

section \<open>The window of a pass\<close>

lemma TimeClip_inRange: "inRange t \<Longrightarrow> TimeClip t = Some t"
  by (simp add: TimeClip_def inRange_def)

lemma reminderBody_window:
  assumes "inRange (Date_now E + msPerDay)" and "inRange (Date_now E + 2 * msPerDay)"
  shows "reminderBody E intervals st =
           (case findPets E of
              Inl err \<Rightarrow> Thrown err st
            | Inr pets \<Rightarrow>
                forPets E intervals (isoDate (Date_now E + msPerDay))
                  (isoDate (Date_now E + 2 * msPerDay)) pets st)"
proof -
  have t1: "plusDays (Some (Date_now E)) 1 = Some (Date_now E + msPerDay)"
    using assms(1) by (simp add: plusDays_Some TimeClip_inRange)
  have "Date_now E + msPerDay + 1 * msPerDay = Date_now E + 2 * msPerDay" by simp
  then have t2: "plusDays (Some (Date_now E + msPerDay)) 1 = Some (Date_now E + 2 * msPerDay)"
    using assms(2) by (simp only: plusDays_Some TimeClip_inRange)
  obtain s1 where s1: "toISOString (Some (Date_now E + msPerDay)) = Inr s1"
    using toISOString_Some by blast
  obtain s2 where s2: "toISOString (Some (Date_now E + 2 * msPerDay)) = Inr s2"
    using toISOString_Some by blast
  show ?thesis
    unfolding reminderBody_def Let_def t1 t2 s1 s2
    using beforeT_toISOString [OF s1] beforeT_toISOString [OF s2]
    by (simp split: sum.splits)
qed

lemma DayFromYear_0: "DayFromYear 0 = - 719528"
  by (simp add: DayFromYear_def)

lemma DayFromYear_10000: "DayFromYear 10000 = 2932897"
  by (simp add: DayFromYear_def)

lemma Day_bounds: "Day t * msPerDay \<le> t \<and> t < (Day t + 1) * msPerDay"
proof -
  have "t div msPerDay * msPerDay + t mod msPerDay = t" by simp
  moreover have "0 \<le> t mod msPerDay" "t mod msPerDay < msPerDay"
    using msPerDay_pos by simp_all
  ultimately show ?thesis unfolding Day_def distrib_right by linarith
qed

lemma fourDigit_day_bounds:
  assumes "0 \<le> YearFromDay d" and "YearFromDay d \<le> 9999"
  shows "- 719528 \<le> d \<and> d < 2932897"
proof -
  have "DayFromYear 0 \<le> DayFromYear (YearFromDay d)"
    using assms(1) by (rule DayFromYear_mono)
  moreover have "DayFromYear (YearFromDay d + 1) \<le> DayFromYear 10000"
    using assms(2) by (intro DayFromYear_mono) simp
  ultimately show ?thesis
    using YearFromDay_bounds [of d] by (simp add: DayFromYear_0 DayFromYear_10000)
qed

lemma day_bounds_inRange:
  assumes "- 719528 \<le> Day t" and "Day t < 2932897"
  shows "inRange t"
proof -
  have "Day t * 86400000 \<le> t" "t < Day t * 86400000 + 86400000"
    using Day_bounds [of t] by (simp_all add: msPerDay_def distrib_right)
  then have "- 8640000000000000 \<le> t" "t \<le> 8640000000000000"
    using assms by linarith+
  then show ?thesis
    unfolding inRange_def by (simp add: abs_le_iff)
qed

section \<open>The evaluation of one pet\<close>

lemma latestForType_single: "latestForType parse [v] = Some v"
  by (simp add: latestForType_def later_def date_gt_def split: option.splits)

lemma evalPair_no_entries:
  "entriesForType k (vaccinations p) = [] \<Longrightarrow> evalPair parse tom da p (k, n) = Inr None"
  by (simp add: evalPair_def latestForType_def)

lemma evalPair_single:
  assumes "entriesForType k (vaccinations p) = [v]"
    and "new_Date parse (date v) = Some t"
    and "inRange (t + n * msPerDay)"
  shows "evalPair parse tom da p (k, n) =
           (if str_ge (isoDate (t + n * msPerDay)) tom \<and> str_lt (isoDate (t + n * msPerDay)) da
            then Inr (Some \<lparr>ev_pet = p, ev_key = k, ev_latest = v, ev_lastDate = t,
                           ev_due = isoDate (t + n * msPerDay)\<rparr>)
            else Inr None)"
proof -
  obtain s where s: "toISOString (Some (t + n * msPerDay)) = Inr s"
    using toISOString_Some by blast
  show ?thesis
    using assms beforeT_toISOString [OF s]
    by (simp add: evalPair_def latestForType_single plusDays_Some TimeClip_inRange s Let_def)
qed

lemma events_dispatch: "events (stateOf (dispatch E ev st)) = events st"
  by (simp add: dispatch_def stateOf_def notifyAdopter_def notifyBuyer_def
      sendReminderEmail_def Let_def split: sum.splits)

lemma forIntervals_none:
  "\<forall>kv\<in>set kvs. evalPair (Date_parse E) tom da p kv = Inr None \<Longrightarrow>
     forIntervals E tom da p kvs st = Normal st"
  by (induction kvs) auto

lemma forIntervals_one:
  assumes "\<forall>kv\<in>set pre. evalPair (Date_parse E) tom da p kv = Inr None"
    and "evalPair (Date_parse E) tom da p kv = Inr (Some ev)"
    and "\<forall>kv\<in>set post. evalPair (Date_parse E) tom da p kv = Inr None"
  shows "events (stateOf (forIntervals E tom da p (pre @ kv # post) st)) = events st @ [ev]"
  using assms(1)
proof (induction pre)
  case Nil
  have e: "events (stateOf (dispatch E ev (st\<lparr>events := events st @ [ev]\<rparr>))) = events st @ [ev]"
    by (simp add: events_dispatch)
  show ?case
  proof (cases "dispatch E ev (st\<lparr>events := events st @ [ev]\<rparr>)")
    case (Normal st')
    then show ?thesis
      using e assms(2) forIntervals_none [OF assms(3)] by (simp add: stateOf_def)
  next
    case (Thrown err st')
    then show ?thesis using e assms(2) by (simp add: stateOf_def)
  qed
next
  case (Cons a pre)
  then show ?case by simp
qed

lemma events_remindersWith:
  "events (remindersWith intervals E st) = events (stateOf (reminderBody E intervals st))"
  by (simp add: remindersWith_def stateOf_def split: outcome.splits)

lemma forPets_single:
  "stateOf (forPets E intervals tom da [p] st) = stateOf (forIntervals E tom da p intervals st)"
  by (simp add: stateOf_def split: outcome.splits)

lemma body_single:
  assumes "inRange (Date_now E + msPerDay)" and "inRange (Date_now E + 2 * msPerDay)"
    and store: "findPets E = Inr [p]"
  shows "events (remindersWith intervals E st) =
           events (stateOf (forIntervals E (isoDate (Date_now E + msPerDay))
             (isoDate (Date_now E + 2 * msPerDay)) p intervals st))"
proof -
  have "reminderBody E intervals st =
          forPets E intervals (isoDate (Date_now E + msPerDay))
            (isoDate (Date_now E + 2 * msPerDay)) [p] st"
    unfolding reminderBody_window [OF assms(1,2)] store by (simp only: sum.case)
  then show ?thesis
    by (simp only: events_remindersWith forPets_single)
qed

lemma window_days:
  assumes r: "0 \<le> YearFromDay (Day now)" "YearFromDay (Day now + 2) \<le> 9999"
    and d: "d = Day now \<or> d = Day now + 1 \<or> d = Day now + 2"
  shows "0 \<le> YearFromDay d \<and> YearFromDay d \<le> 9999"
proof -
  have "YearFromDay (Day now) \<le> YearFromDay d" "YearFromDay d \<le> YearFromDay (Day now + 2)"
    using d by (auto intro: YearFromDay_mono)
  then show ?thesis using r by simp
qed

lemma window_inRange:
  assumes r: "0 \<le> YearFromDay (Day now)" "YearFromDay (Day now + 2) \<le> 9999"
    and d: "Day t = Day now \<or> Day t = Day now + 1 \<or> Day t = Day now + 2"
  shows "inRange t"
  using window_days [OF r d] fourDigit_day_bounds [of "Day t"] day_bounds_inRange [of t]
  by simp

lemma Day_plus1: "Day (t + msPerDay) = Day t + 1"
  using Day_plus [of t 1] by simp

lemma Day_plus2: "Day (t + 2 * msPerDay) = Day t + 2"
  using Day_plus [of t 2] by simp

lemma single_entry:
  assumes "vaccinations p = [Some v]" and "truthy (vaccineType v)" and "truthy (date v)"
  shows "entriesForType k (vaccinations p) = (if vaccineKey v = k then [v] else [])"
  using assms by simp

lemma others_none:
  assumes p: "vaccinations p = [Some v]"
    and d: "distinct (map fst (pre @ (vaccineKey v, n) # post))"
  shows "\<forall>kv\<in>set pre \<union> set post. evalPair parse tom da p kv = Inr None"
proof
  fix kv assume kv: "kv \<in> set pre \<union> set post"
  then have "fst kv \<in> fst ` set pre \<union> fst ` set post" by auto
  moreover have "vaccineKey v \<notin> fst ` set pre \<union> fst ` set post" using d by simp
  ultimately have "fst kv \<noteq> vaccineKey v" by metis
  then have "entriesForType (fst kv) (vaccinations p) = []"
    using p by simp
  then have "evalPair parse tom da p (fst kv, snd kv) = Inr None"
    by (rule evalPair_no_entries)
  then show "evalPair parse tom da p kv = Inr None" by simp
qed

lemma window_test:
  assumes r: "0 \<le> YearFromDay (Day now)" "YearFromDay (Day now + 2) \<le> 9999"
  shows "Day x = Day now + 1 \<Longrightarrow>
           str_ge (isoDate x) (isoDate (now + msPerDay))
           \<and> str_lt (isoDate x) (isoDate (now + 2 * msPerDay))"
    and "Day x = Day now + 2 \<Longrightarrow> \<not> str_lt (isoDate x) (isoDate (now + 2 * msPerDay))"
    and "Day x = Day now \<Longrightarrow> \<not> str_ge (isoDate x) (isoDate (now + msPerDay))"
proof -
  {
    assume x: "Day x = Day now + 1"
    then have e: "isoDate x = isoDate (now + msPerDay)"
      by (intro isoDate_cong) (simp add: Day_plus1)
    have "0 \<le> YearFromTime x" "YearFromTime (now + 2 * msPerDay) \<le> 9999"
      using x r window_days [OF r, of "Day now + 1"]
      by (simp_all add: YearFromTime_def Day_plus2)
    then have "str_lt (isoDate x) (isoDate (now + 2 * msPerDay))"
      using x by (intro isoDate_next_day) (simp_all add: Day_plus2)
    then show "str_ge (isoDate x) (isoDate (now + msPerDay))
           \<and> str_lt (isoDate x) (isoDate (now + 2 * msPerDay))"
      using e by (simp add: str_ge_def str_lt_irrefl)
  next
    assume x: "Day x = Day now + 2"
    then have "isoDate x = isoDate (now + 2 * msPerDay)"
      by (intro isoDate_cong) (simp add: Day_plus2)
    then show "\<not> str_lt (isoDate x) (isoDate (now + 2 * msPerDay))"
      by (simp add: str_lt_irrefl)
  next
    assume x: "Day x = Day now"
    have "0 \<le> YearFromTime x" "YearFromTime (now + msPerDay) \<le> 9999"
      using x r window_days [OF r, of "Day now + 1"]
      by (simp_all add: YearFromTime_def Day_plus1)
    then have "str_lt (isoDate x) (isoDate (now + msPerDay))"
      using x by (intro isoDate_next_day) (simp_all add: Day_plus1)
    then show "\<not> str_ge (isoDate x) (isoDate (now + msPerDay))"
      by (simp add: str_ge_def)
  }
qed

lemma single_dose_loop:
  assumes p: "vaccinations p = [Some \<lparr>vaccineType = Str T, date = Str s\<rparr>]"
    and ne: "T \<noteq> []" "s \<noteq> []"
    and t: "new_Date (Date_parse E) (Str s) = Some t"
    and tab: "(toLowerCase (trim T), n) \<in> set intervals" "distinct (map fst intervals)"
    and r: "0 \<le> YearFromDay (Day (Date_now E))" "YearFromDay (Day (Date_now E) + 2) \<le> 9999"
  shows "(Day (Date_now E) = Day t + n - 1 \<longrightarrow>
            events (stateOf (forIntervals E (isoDate (Date_now E + msPerDay))
                      (isoDate (Date_now E + 2 * msPerDay)) p intervals st)) =
              events st @
              [\<lparr>ev_pet = p, ev_key = toLowerCase (trim T),
                ev_latest = \<lparr>vaccineType = Str T, date = Str s\<rparr>, ev_lastDate = t,
                ev_due = isoDate (t + n * msPerDay)\<rparr>])
       \<and> (Day (Date_now E) = Day t + n - 2 \<or> Day (Date_now E) = Day t + n \<longrightarrow>
            events (stateOf (forIntervals E (isoDate (Date_now E + msPerDay))
                      (isoDate (Date_now E + 2 * msPerDay)) p intervals st)) = events st)"
proof -
  let ?now = "Date_now E"
  let ?v = "\<lparr>vaccineType = Str T, date = Str s\<rparr>"
  let ?k = "toLowerCase (trim T)"
  let ?tom = "isoDate (?now + msPerDay)"
  let ?da = "isoDate (?now + 2 * msPerDay)"
  let ?x = "t + n * msPerDay"
  let ?ev = "\<lparr>ev_pet = p, ev_key = ?k, ev_latest = ?v, ev_lastDate = t, ev_due = isoDate ?x\<rparr>"
  have key: "vaccineKey ?v = ?k" by (simp add: vaccineKey_def)
  obtain pre post where sp: "intervals = pre @ (?k, n) # post"
    using tab(1) by (meson split_list)
  have other: "\<forall>kv\<in>set pre \<union> set post. evalPair (Date_parse E) ?tom ?da p kv = Inr None"
    using others_none [OF p, of pre n post] tab(2) unfolding sp key by simp
  have ent: "entriesForType ?k (vaccinations p) = [?v]"
    using single_entry [OF p, of ?k] ne key by simp
  have tv: "new_Date (Date_parse E) (date ?v) = Some t" using t by simp
  have dx: "Day ?x = Day t + n" by (rule Day_plus)
  have first: "events (stateOf (forIntervals E ?tom ?da p intervals st)) = events st @ [?ev]"
    if a: "Day ?now = Day t + n - 1"
  proof -
    have d: "Day ?x = Day ?now + 1" using a dx by simp
    then have "inRange ?x" using window_inRange [OF r, of ?x] by simp
    then have "evalPair (Date_parse E) ?tom ?da p (?k, n) = Inr (Some ?ev)"
      using evalPair_single [OF ent tv, of n ?tom ?da] window_test(1) [OF r d] by simp
    moreover have "\<forall>kv\<in>set pre. evalPair (Date_parse E) ?tom ?da p kv = Inr None"
      "\<forall>kv\<in>set post. evalPair (Date_parse E) ?tom ?da p kv = Inr None"
      using other by simp_all
    ultimately have "events (stateOf (forIntervals E ?tom ?da p (pre @ (?k, n) # post) st))
                     = events st @ [?ev]"
      by (intro forIntervals_one)
    then show ?thesis
      unfolding sp by simp
  qed
  have none: "events (stateOf (forIntervals E ?tom ?da p intervals st)) = events st"
    if a: "Day ?now = Day t + n - 2 \<or> Day ?now = Day t + n"
  proof -
    have d: "Day ?x = Day ?now + 2 \<or> Day ?x = Day ?now" using a dx by auto
    then have "inRange ?x" using window_inRange [OF r, of ?x] by auto
    moreover have "\<not> (str_ge (isoDate ?x) ?tom \<and> str_lt (isoDate ?x) ?da)"
      using d window_test(2) [OF r, of ?x] window_test(3) [OF r, of ?x] by auto
    ultimately have "evalPair (Date_parse E) ?tom ?da p (?k, n) = Inr None"
      using evalPair_single [OF ent tv, of n ?tom ?da] by simp
    then have "\<forall>kv\<in>set intervals. evalPair (Date_parse E) ?tom ?da p kv = Inr None"
      using other unfolding sp by simp
    then have "forIntervals E ?tom ?da p intervals st = Normal st"
      by (rule forIntervals_none)
    then show ?thesis
      by (simp add: stateOf_def)
  qed
  show ?thesis using first none by blast
qed

lemma single_dose_events:
  assumes p: "vaccinations p = [Some \<lparr>vaccineType = Str T, date = Str s\<rparr>]"
    and ne: "T \<noteq> []" "s \<noteq> []"
    and t: "new_Date (Date_parse E) (Str s) = Some t"
    and tab: "(toLowerCase (trim T), n) \<in> set intervals" "distinct (map fst intervals)"
    and store: "findPets E = Inr [p]"
    and r: "0 \<le> YearFromDay (Day (Date_now E))" "YearFromDay (Day (Date_now E) + 2) \<le> 9999"
  shows "(Day (Date_now E) = Day t + n - 1 \<longrightarrow>
            events (remindersWith intervals E emptyState) =
              [\<lparr>ev_pet = p, ev_key = toLowerCase (trim T),
                ev_latest = \<lparr>vaccineType = Str T, date = Str s\<rparr>, ev_lastDate = t,
                ev_due = isoDate (t + n * msPerDay)\<rparr>])
       \<and> (Day (Date_now E) = Day t + n - 2 \<or> Day (Date_now E) = Day t + n \<longrightarrow>
            events (remindersWith intervals E emptyState) = [])"
proof -
  have body: "events (remindersWith intervals E emptyState) =
                events (stateOf (forIntervals E (isoDate (Date_now E + msPerDay))
                  (isoDate (Date_now E + 2 * msPerDay)) p intervals emptyState))"
    using window_inRange [OF r] by (intro body_single store) (simp_all add: Day_plus1 Day_plus2)
  have "events emptyState = []" by (simp add: emptyState_def)
  then show ?thesis
    unfolding body using single_dose_loop [OF p ne t tab r, of emptyState] by simp
qed

section \<open>A single dose\<close>


lemma bella_facts:
  "vaccinations (bella d) = [Some \<lparr>vaccineType = Str ''Rabies'', date = Str d\<rparr>]"
  "findPets (bellaEnv d now) = Inr [bella d]"
  "Date_now (bellaEnv d now) = now"
  "Date_parse (bellaEnv d now) = parseDateOnly"
  by (simp_all add: bella_def bellaEnv_def petsWithVaccinations_def)

lemma rabies_key: "(toLowerCase (trim ''Rabies''), 365) \<in> set (normalizeIntervals rabiesTable)"
  by code_simp

lemma rabies_key_actual: "(toLowerCase (trim ''Rabies''), 365) \<in> set normalizedIntervals"
  by code_simp

lemma rabies_lower: "toLowerCase (trim ''Rabies'') = ''rabies''"
  by code_simp

lemma rabies_distinct: "distinct (map fst (normalizeIntervals rabiesTable))"
  by code_simp

lemma parse_20240110: "new_Date parseDateOnly (Str ''2024-01-10'') = Some 1704844800000"
  by code_simp

lemma due_20250109: "isoDate (1704844800000 + 365 * msPerDay) = ''2025-01-09''"
  by code_simp





text \<open>
  Claim C2 as stated fails. 2024 is a leap year, so 365 days after 2024-01-10 is
  2025-01-09, not 2025-01-10, and a pass on 2025-01-09 (here at 09:00 UTC) meets no due
  event.
\<close>

theorem rabies_scenario_as_stated:
  "toISOString (plusDays (new_Date parseDateOnly (Str ''2024-01-10'')) 365) =
     Inr ''2025-01-09T00:00:00.000Z'' \<and>
   toISOString (Some 1736413200000) = Inr ''2025-01-09T09:00:00.000Z'' \<and>
   events (remindersWith (normalizeIntervals rabiesTable)
             (bellaEnv ''2024-01-10'' 1736413200000) emptyState) = []"
  by code_simp

lemma parse_20250108: "parseDateOnly ''2025-01-08'' = Some (20096 * msPerDay)"
  by code_simp

lemma parse_20250109: "parseDateOnly ''2025-01-09'' = Some (20097 * msPerDay)"
  by code_simp

lemma day_19732: "Day 1704844800000 = 19732"
  by code_simp

lemma years_2025:
  "0 \<le> YearFromDay 20096" "YearFromDay (20096 + 2) \<le> 9999"
  "0 \<le> YearFromDay 20097" "YearFromDay (20097 + 2) \<le> 9999"
  by code_simp+

text \<open>
  Claim C2, amended. With the table \<open>{"Rabies": 365}\<close> and the one dose of 2024-01-10,
  the next due date is 2025-01-09. A pass at any time of 2025-01-08 meets exactly one due
  event, with that due date; a pass at any time of 2025-01-09 meets none.
\<close>

theorem rabies_scenario:
  "(parseDateOnly ''2025-01-08'' = Some (Day now * msPerDay) \<longrightarrow>
      events (remindersWith (normalizeIntervals rabiesTable)
                (bellaEnv ''2024-01-10'' now) emptyState) =
        [\<lparr>ev_pet = bella ''2024-01-10'', ev_key = ''rabies'',
          ev_latest = \<lparr>vaccineType = Str ''Rabies'', date = Str ''2024-01-10''\<rparr>,
          ev_lastDate = 1704844800000, ev_due = ''2025-01-09''\<rparr>])
   \<and> (parseDateOnly ''2025-01-09'' = Some (Day now * msPerDay) \<longrightarrow>
      events (remindersWith (normalizeIntervals rabiesTable)
                (bellaEnv ''2024-01-10'' now) emptyState) = [])"
proof -
  note g = single_dose_events
    [of "bella ''2024-01-10''" "''Rabies''" "''2024-01-10''" "bellaEnv ''2024-01-10'' now"
        1704844800000 365 "normalizeIntervals rabiesTable"]
  have ne: "''Rabies'' \<noteq> []" "''2024-01-10'' \<noteq> []" by simp_all
  have first: "events (remindersWith (normalizeIntervals rabiesTable)
                (bellaEnv ''2024-01-10'' now) emptyState) =
        [\<lparr>ev_pet = bella ''2024-01-10'', ev_key = ''rabies'',
          ev_latest = \<lparr>vaccineType = Str ''Rabies'', date = Str ''2024-01-10''\<rparr>,
          ev_lastDate = 1704844800000, ev_due = ''2025-01-09''\<rparr>]"
    if "parseDateOnly ''2025-01-08'' = Some (Day now * msPerDay)"
  proof -
    have "Day now * msPerDay = 20096 * msPerDay" using that parse_20250108 by simp
    then have "Day now = 20096" using msPerDay_pos by simp
    then show ?thesis
      using g ne parse_20240110 rabies_key rabies_distinct years_2025
      by (simp add: bella_facts rabies_lower due_20250109 day_19732)
  qed
  have second: "events (remindersWith (normalizeIntervals rabiesTable)
                (bellaEnv ''2024-01-10'' now) emptyState) = []"
    if "parseDateOnly ''2025-01-09'' = Some (Day now * msPerDay)"
  proof -
    have "Day now * msPerDay = 20097 * msPerDay" using that parse_20250109 by simp
    then have "Day now = 20097" using msPerDay_pos by simp
    then show ?thesis
      using g ne parse_20240110 rabies_key rabies_distinct years_2025
      by (simp add: bella_facts rabies_lower due_20250109 day_19732)
  qed
  show ?thesis using first second by blast
qed

theorem rabies_scenario_witness:
  "parseDateOnly ''2025-01-08'' = Some (Day 1736326800000 * msPerDay) \<and>
   events (remindersWith (normalizeIntervals rabiesTable)
             (bellaEnv ''2024-01-10'' 1736326800000) emptyState) =
     [\<lparr>ev_pet = bella ''2024-01-10'', ev_key = ''rabies'',
       ev_latest = \<lparr>vaccineType = Str ''Rabies'', date = Str ''2024-01-10''\<rparr>,
       ev_lastDate = 1704844800000, ev_due = ''2025-01-09''\<rparr>] \<and>
   parseDateOnly ''2025-01-09'' = Some (Day 1736413200000 * msPerDay) \<and>
   events (remindersWith (normalizeIntervals rabiesTable)
             (bellaEnv ''2024-01-10'' 1736413200000) emptyState) = []"
proof -
  have h: "parseDateOnly ''2025-01-08'' = Some (Day 1736326800000 * msPerDay)"
    "parseDateOnly ''2025-01-09'' = Some (Day 1736413200000 * msPerDay)"
    by code_simp+
  show ?thesis
    using rabies_scenario [of 1736326800000] rabies_scenario [of 1736413200000] h by simp
qed

section \<open>The notification branch\<close>

lemma outbox_notifyAdopter:
  "outbox (notifyAdopter E ev a st) = outbox st @ reminderTo E ev (adopterEmailOf a)"
  by (simp add: notifyAdopter_def sendReminderEmail_def reminderTo_def Let_def)

lemma outbox_notifyBuyer:
  "outbox (notifyBuyer E ev b st) = outbox st @ reminderTo E ev (buyerEmailOf b)"
  by (simp add: notifyBuyer_def sendReminderEmail_def reminderTo_def Let_def)

lemma outbox_dispatch:
  "outbox (stateOf (dispatch E ev st)) = outbox st @ adopterMails E ev @ buyerMails E ev"
  by (simp add: dispatch_def stateOf_def adopterMails_def buyerMails_def Let_def
      outbox_notifyAdopter outbox_notifyBuyer split: sum.splits)

text \<open>
  Claim C5. With a store that answers, the notification branch of a due event never
  throws, and the mails it hands to the transporter are: one reminder to the adopter's
  address when the first adoption request of the pet with status exactly \<open>accepted\<close>
  has a non-empty \<open>adopterEmail\<close>, then one reminder to the buyer's address when the
  first purchase of the pet has a non-empty \<open>buyerEmail\<close>, and nothing else. So two
  mails when both are there, none when neither record is found, and none for a record
  found without an address.
\<close>

theorem dispatch_recipients:
  assumes "findAdoption E = acceptedAdoption adoptions"
    and "findPurchase E = purchaseOf purchases"
  shows "\<exists>st'. dispatch E ev st = Normal st' \<and>
           outbox st' =
             outbox st
             @ reminderTo E ev
                 (adopterEmailOf
                    (find (\<lambda>a. adoption_petId a = pet_id (ev_pet ev) \<and> status a = ''accepted'')
                       adoptions))
             @ reminderTo E ev
                 (buyerEmailOf (find (\<lambda>b. purchase_petId b = pet_id (ev_pet ev)) purchases))"
  using assms
  by (simp add: dispatch_def Let_def acceptedAdoption_def purchaseOf_def
      outbox_notifyAdopter outbox_notifyBuyer)

theorem dispatch_recipients_witness:
  "map mail_to
     (outbox (stateOf (dispatch
        (storeEnv [] [\<lparr>adoption_petId = ''p1'', status = ''pending'', adopterEmail = Str ''x@example.com''\<rparr>,
                      \<lparr>adoption_petId = ''p1'', status = ''accepted'', adopterEmail = Str ''a@example.com''\<rparr>]
                     [\<lparr>purchase_petId = ''p1'', buyerEmail = Str ''b@example.com''\<rparr>] 0)
        rabiesEvent emptyState))) = [''a@example.com'', ''b@example.com'']
   \<and> outbox (stateOf (dispatch (storeEnv [] [] [] 0) rabiesEvent emptyState)) = []
   \<and> outbox (stateOf (dispatch
        (storeEnv [] [\<lparr>adoption_petId = ''p1'', status = ''accepted'', adopterEmail = Str []\<rparr>]
                     [\<lparr>purchase_petId = ''p1'', buyerEmail = Undefined\<rparr>] 0)
        rabiesEvent emptyState)) = []"
proof -
  have f: "findAdoption (storeEnv ps as bs n) = acceptedAdoption as"
    "findPurchase (storeEnv ps as bs n) = purchaseOf bs" for ps as bs n
    by (simp_all add: storeEnv_def)
  have p: "pet_id (ev_pet rabiesEvent) = ''p1''"
    by (simp add: rabiesEvent_def bella_def)
  note a = dispatch_recipients [of
      "storeEnv []
         [\<lparr>adoption_petId = ''p1'', status = ''pending'', adopterEmail = Str ''x@example.com''\<rparr>,
          \<lparr>adoption_petId = ''p1'', status = ''accepted'', adopterEmail = Str ''a@example.com''\<rparr>]
         [\<lparr>purchase_petId = ''p1'', buyerEmail = Str ''b@example.com''\<rparr>] 0"
      "[\<lparr>adoption_petId = ''p1'', status = ''pending'', adopterEmail = Str ''x@example.com''\<rparr>,
        \<lparr>adoption_petId = ''p1'', status = ''accepted'', adopterEmail = Str ''a@example.com''\<rparr>]"
      "[\<lparr>purchase_petId = ''p1'', buyerEmail = Str ''b@example.com''\<rparr>]"
      rabiesEvent emptyState, OF f]
  note b = dispatch_recipients [of "storeEnv [] [] [] 0" "[]" "[]" rabiesEvent emptyState, OF f]
  note c = dispatch_recipients [of
      "storeEnv [] [\<lparr>adoption_petId = ''p1'', status = ''accepted'', adopterEmail = Str []\<rparr>]
         [\<lparr>purchase_petId = ''p1'', buyerEmail = Undefined\<rparr>] 0"
      "[\<lparr>adoption_petId = ''p1'', status = ''accepted'', adopterEmail = Str []\<rparr>]"
      "[\<lparr>purchase_petId = ''p1'', buyerEmail = Undefined\<rparr>]" rabiesEvent emptyState, OF f]
  show ?thesis
    using a b c
    by (auto simp: p stateOf_def reminderTo_def adopterEmailOf_def buyerEmailOf_def emptyState_def)
qed

section \<open>The events and the mails of a pass\<close>

lemma entriesForType_sound:
  "v \<in> set (entriesForType k vs) \<Longrightarrow>
     Some v \<in> set vs \<and> truthy (vaccineType v) \<and> truthy (date v) \<and> vaccineKey v = k"
  by (induction k vs rule: entriesForType.induct) (auto split: if_splits)

lemma foldl_later_mem: "foldl (later parse) e es \<in> insert e (set es)"
  by (induction es arbitrary: e) (auto simp: later_def)

lemma latestForType_mem: "latestForType parse es = Some l \<Longrightarrow> l \<in> set es"
  using foldl_later_mem [of parse "hd es" es]
  by (cases es) (auto simp: latestForType_def)

lemma evalPair_event:
  assumes "evalPair parse tom da p (k, n) = Inr (Some ev)"
  shows "ev_pet ev = p \<and> ev_key ev = k
         \<and> ev_latest ev \<in> set (entriesForType k (vaccinations p))"
  using assms latestForType_mem [of parse "entriesForType k (vaccinations p)"]
  by (auto simp: evalPair_def Let_def split: option.splits sum.splits if_splits)

lemma objSet_keys:
  "map fst (objSet kvs k v) = (if k \<in> fst ` set kvs then map fst kvs else map fst kvs @ [k])"
  by (induction kvs) (auto simp: image_iff, force+)

lemma objSet_distinct: "distinct (map fst kvs) \<Longrightarrow> distinct (map fst (objSet kvs k v))"
  by (simp add: objSet_keys)

lemma foldl_objSet_distinct:
  "distinct (map fst acc) \<Longrightarrow>
     distinct (map fst (foldl (\<lambda>obj (k, v). objSet obj (f k) v) acc table))"
  by (induction table arbitrary: acc) (auto simp: objSet_distinct)

lemma normalizeIntervals_distinct: "distinct (map fst (normalizeIntervals table))"
  unfolding normalizeIntervals_def by (rule foldl_objSet_distinct) simp

lemma traced_refl: "traced E st st []"
  by (simp add: traced_def)

lemma traced_trans: "traced E st st1 evs \<Longrightarrow> traced E st1 st2 evs' \<Longrightarrow> traced E st st2 (evs @ evs')"
  by (simp add: traced_def)

lemma traced_dispatch:
  "traced E st (stateOf (dispatch E ev (st\<lparr>events := events st @ [ev]\<rparr>))) [ev]"
  by (simp add: traced_def events_dispatch outbox_dispatch dispatchMails_def)

lemma forIntervals_trace:
  "\<exists>evs. traced E st (stateOf (forIntervals E tom da p kvs st)) evs
     \<and> (\<forall>ev\<in>set evs. ev_pet ev = p \<and> ev_key ev \<in> fst ` set kvs
            \<and> ev_latest ev \<in> set (entriesForType (ev_key ev) (vaccinations p)))
     \<and> (distinct (map fst kvs) \<longrightarrow> distinct (map ev_key evs))"
proof (induction kvs arbitrary: st)
  case Nil
  show ?case using traced_refl [of E st] by (auto simp: stateOf_def)
next
  case (Cons kv kvs)
  obtain k n where kv: "kv = (k, n)" by (cases kv)
  show ?case
  proof (cases "evalPair (Date_parse E) tom da p kv")
    case (Inl err)
    then show ?thesis using traced_refl [of E st] by (auto simp: stateOf_def)
  next
    case (Inr r)
    show ?thesis
    proof (cases r)
      case None
      obtain evs where "traced E st (stateOf (forIntervals E tom da p kvs st)) evs"
        "\<forall>ev\<in>set evs. ev_pet ev = p \<and> ev_key ev \<in> fst ` set kvs
            \<and> ev_latest ev \<in> set (entriesForType (ev_key ev) (vaccinations p))"
        "distinct (map fst kvs) \<longrightarrow> distinct (map ev_key evs)"
        using Cons.IH [of st] by blast
      then show ?thesis using Inr None by (intro exI [of _ evs]) auto
    next
      case (Some ev)
      let ?st1 = "st\<lparr>events := events st @ [ev]\<rparr>"
      have ev: "ev_pet ev = p" "ev_key ev = k"
        "ev_latest ev \<in> set (entriesForType (ev_key ev) (vaccinations p))"
        using evalPair_event [of "Date_parse E" tom da p k n ev] Inr Some kv by simp_all
      have d: "traced E st (stateOf (dispatch E ev ?st1)) [ev]" by (rule traced_dispatch)
      show ?thesis
      proof (cases "dispatch E ev ?st1")
        case (Thrown err st')
        then have "stateOf (forIntervals E tom da p (kv # kvs) st) = stateOf (dispatch E ev ?st1)"
          using Inr Some by (simp add: stateOf_def)
        then show ?thesis using d ev kv by (intro exI [of _ "[ev]"]) auto
      next
        case (Normal st')
        obtain evs where evs: "traced E st' (stateOf (forIntervals E tom da p kvs st')) evs"
          "\<forall>ev\<in>set evs. ev_pet ev = p \<and> ev_key ev \<in> fst ` set kvs
            \<and> ev_latest ev \<in> set (entriesForType (ev_key ev) (vaccinations p))"
          "distinct (map fst kvs) \<longrightarrow> distinct (map ev_key evs)"
          using Cons.IH [of st'] by blast
        have "stateOf (forIntervals E tom da p (kv # kvs) st)
                = stateOf (forIntervals E tom da p kvs st')"
          using Inr Some Normal by simp
        moreover have "traced E st st' [ev]" using d Normal by (simp add: stateOf_def)
        ultimately have t: "traced E st (stateOf (forIntervals E tom da p (kv # kvs) st)) ([ev] @ evs)"
          using evs(1) traced_trans by metis
        have "distinct (map ev_key (ev # evs))" if dk: "distinct (map fst (kv # kvs))"
        proof -
          have "k \<notin> fst ` set kvs" using dk kv by simp
          then have "ev_key ev \<notin> set (map ev_key evs)" using evs(2) ev(2) by auto
          then show ?thesis using evs(3) dk by simp
        qed
        then show ?thesis using t evs(2) ev kv by (intro exI [of _ "ev # evs"]) auto
      qed
    qed
  qed
qed

lemma forPets_trace:
  "\<exists>evs. traced E st (stateOf (forPets E ivs tom da ps st)) evs
     \<and> (\<forall>ev\<in>set evs. ev_pet ev \<in> set ps \<and> ev_key ev \<in> fst ` set ivs
            \<and> ev_latest ev \<in> set (entriesForType (ev_key ev) (vaccinations (ev_pet ev))))
     \<and> (distinct (map fst ivs) \<and> distinct (map pet_id ps) \<longrightarrow> distinct (map pairOf evs))"
proof (induction ps arbitrary: st)
  case Nil
  show ?case using traced_refl [of E st] by (auto simp: stateOf_def)
next
  case (Cons p ps)
  obtain evs1 where e1: "traced E st (stateOf (forIntervals E tom da p ivs st)) evs1"
    "\<forall>ev\<in>set evs1. ev_pet ev = p \<and> ev_key ev \<in> fst ` set ivs
       \<and> ev_latest ev \<in> set (entriesForType (ev_key ev) (vaccinations p))"
    "distinct (map fst ivs) \<longrightarrow> distinct (map ev_key evs1)"
    using forIntervals_trace [of E st tom da p ivs] by blast
  have d1: "distinct (map pairOf evs1)" if "distinct (map fst ivs)"
  proof -
    have "distinct (map ev_key evs1)" using e1(3) that by simp
    moreover have "map ev_key evs1 = map (snd \<circ> pairOf) evs1" by (simp add: pairOf_def comp_def)
    ultimately have "distinct (map snd (map pairOf evs1))" by simp
    then show ?thesis by (auto simp: distinct_map inj_on_def)
  qed
  show ?case
  proof (cases "forIntervals E tom da p ivs st")
    case (Thrown err st')
    then have "stateOf (forPets E ivs tom da (p # ps) st) = stateOf (forIntervals E tom da p ivs st)"
      by (simp add: stateOf_def)
    then show ?thesis using e1 d1 by (intro exI [of _ evs1]) auto
  next
    case (Normal st')
    obtain evs2 where e2: "traced E st' (stateOf (forPets E ivs tom da ps st')) evs2"
      "\<forall>ev\<in>set evs2. ev_pet ev \<in> set ps \<and> ev_key ev \<in> fst ` set ivs
         \<and> ev_latest ev \<in> set (entriesForType (ev_key ev) (vaccinations (ev_pet ev)))"
      "distinct (map fst ivs) \<and> distinct (map pet_id ps) \<longrightarrow> distinct (map pairOf evs2)"
      using Cons.IH [of st'] by blast
    have "stateOf (forPets E ivs tom da (p # ps) st) = stateOf (forPets E ivs tom da ps st')"
      using Normal by simp
    moreover have "traced E st st' evs1" using e1(1) Normal by (simp add: stateOf_def)
    ultimately have t: "traced E st (stateOf (forPets E ivs tom da (p # ps) st)) (evs1 @ evs2)"
      using e2(1) traced_trans by metis
    have "distinct (map pairOf (evs1 @ evs2))"
      if dk: "distinct (map fst ivs)" and dp: "distinct (map pet_id (p # ps))"
    proof -
      have "pet_id p \<notin> pet_id ` set ps" using dp by simp
      then have "\<forall>a\<in>set evs1. \<forall>b\<in>set evs2. pairOf a \<noteq> pairOf b"
        using e1(2) e2(2) by (auto simp: pairOf_def)
      then have "set (map pairOf evs1) \<inter> set (map pairOf evs2) = {}" by fastforce
      then show ?thesis using d1 [OF dk] e2(3) dk dp by simp
    qed
    then show ?thesis using t e1(2) e2(2) by (intro exI [of _ "evs1 @ evs2"]) auto
  qed
qed

lemma reminderBody_cases:
  "(\<exists>err. reminderBody E ivs st = Thrown err st)
   \<or> (\<exists>tom da pets. findPets E = Inr pets
         \<and> reminderBody E ivs st = forPets E ivs tom da pets st)"
  by (auto simp: reminderBody_def Let_def split: sum.splits)

lemma outbox_remindersWith:
  "outbox (remindersWith intervals E st) = outbox (stateOf (reminderBody E intervals st))"
  by (simp add: remindersWith_def stateOf_def split: outcome.splits)

lemma pass_trace:
  "\<exists>evs. events (remindersWith ivs E st) = events st @ evs
     \<and> outbox (remindersWith ivs E st) = outbox st @ concat (map (dispatchMails E) evs)
     \<and> (\<forall>ev\<in>set evs. ev_key ev \<in> fst ` set ivs
            \<and> ev_latest ev \<in> set (entriesForType (ev_key ev) (vaccinations (ev_pet ev))))
     \<and> (distinct (map fst ivs) \<and> (\<forall>pets. findPets E = Inr pets \<longrightarrow> distinct (map pet_id pets))
          \<longrightarrow> distinct (map pairOf evs))"
proof -
  consider (thrown) err where "reminderBody E ivs st = Thrown err st"
    | (loop) tom da pets where "findPets E = Inr pets"
        "reminderBody E ivs st = forPets E ivs tom da pets st"
    using reminderBody_cases [of E ivs st] by blast
  then show ?thesis
  proof cases
    case thrown
    then show ?thesis
      by (intro exI [of _ "[]"]) (simp add: events_remindersWith outbox_remindersWith stateOf_def)
  next
    case loop
    obtain evs where e: "traced E st (stateOf (forPets E ivs tom da pets st)) evs"
      "\<forall>ev\<in>set evs. ev_pet ev \<in> set pets \<and> ev_key ev \<in> fst ` set ivs
         \<and> ev_latest ev \<in> set (entriesForType (ev_key ev) (vaccinations (ev_pet ev)))"
      "distinct (map fst ivs) \<and> distinct (map pet_id pets) \<longrightarrow> distinct (map pairOf evs)"
      using forPets_trace [of E st ivs tom da pets] by blast
    show ?thesis
      using e loop
      by (intro exI [of _ evs])
        (auto simp: events_remindersWith outbox_remindersWith traced_def)
  qed
qed

text \<open>
  Claim C6. Whatever the pets, the clock and the store, a pass meets no due event for a
  vaccination entry whose key (trimmed, lower-cased vaccine type) is not a key of the
  interval table; and for a key of the table with no matching entry in a pet's
  vaccinations it meets no due event for that pet and that key.
\<close>

theorem absent_types_never_due:
  "(vaccineKey v \<notin> set (map fst intervals) \<longrightarrow>
      (\<forall>ev\<in>set (events (remindersWith intervals E emptyState)).
         vaccineKey (ev_latest ev) \<noteq> vaccineKey v))
   \<and> (entriesForType k (vaccinations p) = [] \<longrightarrow>
      (\<forall>ev\<in>set (events (remindersWith intervals E emptyState)).
         \<not> (ev_pet ev = p \<and> ev_key ev = k)))"
proof -
  obtain evs where e: "events (remindersWith intervals E emptyState) = events emptyState @ evs"
    "\<forall>ev\<in>set evs. ev_key ev \<in> fst ` set intervals
       \<and> ev_latest ev \<in> set (entriesForType (ev_key ev) (vaccinations (ev_pet ev)))"
    using pass_trace [of intervals E emptyState] by blast
  have s: "set (events (remindersWith intervals E emptyState)) = set evs"
    using e(1) by (simp add: emptyState_def)
  have k: "vaccineKey (ev_latest ev) = ev_key ev" if "ev \<in> set evs" for ev
    using e(2) that entriesForType_sound [of "ev_latest ev" "ev_key ev"] by blast
  have a: "vaccineKey (ev_latest ev) \<noteq> vaccineKey v"
    if "vaccineKey v \<notin> set (map fst intervals)" and "ev \<in> set evs" for ev
  proof -
    have "ev_key ev \<in> set (map fst intervals)" using e(2) that(2) by simp
    then show ?thesis using that(1) k [OF that(2)] by metis
  qed
  have b: "\<not> (ev_pet ev = p \<and> ev_key ev = k)"
    if "entriesForType k (vaccinations p) = []" and "ev \<in> set evs" for ev
  proof
    assume "ev_pet ev = p \<and> ev_key ev = k"
    moreover have "ev_latest ev \<in> set (entriesForType (ev_key ev) (vaccinations (ev_pet ev)))"
      using e(2) that(2) by simp
    ultimately show False using that(1) by simp
  qed
  show ?thesis
    unfolding s using a b by blast
qed

text \<open>
  Claim C9. The keys of \<open>normalizedIntervals\<close> are distinct, and the store gives each pet
  once (distinct identifiers). Then within one pass no two due events are for the same
  pet and key; and the mails handed to the transporter are, event by event, at most one
  reminder to the adopter followed by at most one reminder to the buyer, and no other
  mail.
\<close>

theorem each_pair_once:
  assumes "\<forall>pets. findPets E = Inr pets \<longrightarrow> distinct (map pet_id pets)"
  shows "distinct (map pairOf (events (sendVaccinationReminders E emptyState)))
     \<and> outbox (sendVaccinationReminders E emptyState) =
         concat (map (\<lambda>ev. adopterMails E ev @ buyerMails E ev)
                   (events (sendVaccinationReminders E emptyState)))
     \<and> (\<forall>ev. length (adopterMails E ev) \<le> 1 \<and> length (buyerMails E ev) \<le> 1)"
proof -
  obtain evs where e:
    "events (remindersWith normalizedIntervals E emptyState) = events emptyState @ evs"
    "outbox (remindersWith normalizedIntervals E emptyState) =
       outbox emptyState @ concat (map (dispatchMails E) evs)"
    "distinct (map fst normalizedIntervals)
       \<and> (\<forall>pets. findPets E = Inr pets \<longrightarrow> distinct (map pet_id pets))
     \<longrightarrow> distinct (map pairOf evs)"
    using pass_trace [of normalizedIntervals E emptyState] by blast
  have "distinct (map fst normalizedIntervals)"
    unfolding normalizedIntervals_def by (rule normalizeIntervals_distinct)
  then have "distinct (map pairOf evs)" using e(3) assms by blast
  moreover have "dispatchMails E = (\<lambda>ev. adopterMails E ev @ buyerMails E ev)"
    by (simp add: dispatchMails_def fun_eq_iff)
  moreover have "length (adopterMails E ev) \<le> 1 \<and> length (buyerMails E ev) \<le> 1" for ev
    by (simp add: adopterMails_def buyerMails_def reminderTo_def split: sum.splits)
  ultimately show ?thesis
    using e(1,2) by (simp add: sendVaccinationReminders_def emptyState_def)
qed

theorem absent_types_never_due_witness:
  "vaccineKey \<lparr>vaccineType = Str ''Parvo'', date = Str ''2024-01-10''\<rparr>
     \<notin> set (map fst normalizedIntervals)
   \<and> filter (\<lambda>ev. vaccineKey (ev_latest ev)
                     = vaccineKey \<lparr>vaccineType = Str ''Parvo'', date = Str ''2024-01-10''\<rparr>)
        (events (remindersWith normalizedIntervals shelter emptyState)) = []
   \<and> entriesForType ''leptospirosis'' (vaccinations maxPet) = []
   \<and> filter (\<lambda>ev. ev_pet ev = maxPet \<and> ev_key ev = ''leptospirosis'')
        (events (remindersWith normalizedIntervals shelter emptyState)) = []"
proof -
  have h1: "vaccineKey \<lparr>vaccineType = Str ''Parvo'', date = Str ''2024-01-10''\<rparr>
              \<notin> set (map fst normalizedIntervals)"
    by code_simp
  have h2: "entriesForType ''leptospirosis'' (vaccinations maxPet) = []"
    by code_simp
  show ?thesis
    using absent_types_never_due
      [of "\<lparr>vaccineType = Str ''Parvo'', date = Str ''2024-01-10''\<rparr>" normalizedIntervals
          shelter "''leptospirosis''" maxPet] h1 h2
    by (simp only: filter_empty_conv) blast
qed

theorem each_pair_once_witness:
  "distinct (map pairOf (events (sendVaccinationReminders shelter emptyState)))
   \<and> outbox (sendVaccinationReminders shelter emptyState) =
       concat (map (\<lambda>ev. adopterMails shelter ev @ buyerMails shelter ev)
                 (events (sendVaccinationReminders shelter emptyState)))"
proof -
  have "findPets shelter = Inr [bella ''2024-01-10'', maxPet]"
    by (simp add: shelter_def storeEnv_def petsWithVaccinations_def bella_def maxPet_def)
  then have "\<forall>pets. findPets shelter = Inr pets \<longrightarrow> distinct (map pet_id pets)"
    by (simp add: bella_def maxPet_def)
  then show ?thesis
    using each_pair_once [of shelter] by blast
qed

text \<open>
  Claim C8 as stated fails for store errors. Two pets are due on the same day, each with
  an adopter on record. When the adoption lookup rejects for the first pet only, the
  error leaves both loops: the pass ends with the error on the console, and the second
  pet, whose lookups would answer, gets no due event and no mail.
\<close>

theorem store_error_aborts_pass:
  "map pairOf (events (sendVaccinationReminders shelter emptyState)) =
     [(''p1'', ''rabies''), (''p2'', ''rabies'')]
   \<and> map mail_to (outbox (sendVaccinationReminders shelter emptyState)) =
       [''a@example.com'', ''b@example.com'', ''c@example.com'']
   \<and> findAdoption brokenShelter ''p1'' = Inl StoreError
   \<and> findAdoption brokenShelter ''p2'' = findAdoption shelter ''p2''
   \<and> map pairOf (events (sendVaccinationReminders brokenShelter emptyState)) =
       [(''p1'', ''rabies'')]
   \<and> outbox (sendVaccinationReminders brokenShelter emptyState) = []
   \<and> logs (sendVaccinationReminders brokenShelter emptyState) = [PassError StoreError]"
  by code_simp

section \<open>Failures in a pass\<close>

lemma quiet_eq: "quiet a = quiet b \<longleftrightarrow> outbox a = outbox b \<and> events a = events b"
  by (cases a, cases b) (simp add: quiet_def)

lemma quiet_sendReminderEmail:
  "quiet st' = quiet st \<Longrightarrow>
     quiet (sendReminderEmail (E\<lparr>sendMail := f\<rparr>) to name vt due st')
       = quiet (sendReminderEmail E to name vt due st)"
  by (simp add: quiet_eq sendReminderEmail_def Let_def)

lemma quiet_notifyAdopter:
  "quiet st' = quiet st \<Longrightarrow>
     quiet (notifyAdopter (E\<lparr>sendMail := f\<rparr>) ev a st') = quiet (notifyAdopter E ev a st)"
  by (simp add: quiet_eq notifyAdopter_def sendReminderEmail_def Let_def)

lemma quiet_notifyBuyer:
  "quiet st' = quiet st \<Longrightarrow>
     quiet (notifyBuyer (E\<lparr>sendMail := f\<rparr>) ev b st') = quiet (notifyBuyer E ev b st)"
  by (simp add: quiet_eq notifyBuyer_def sendReminderEmail_def Let_def)

lemma quiet_dispatch:
  assumes "quiet st' = quiet st"
  shows "quietOutcome (dispatch (E\<lparr>sendMail := f\<rparr>) ev st') = quietOutcome (dispatch E ev st)"
  using assms quiet_notifyAdopter [OF assms] quiet_notifyBuyer [OF quiet_notifyAdopter [OF assms]]
  by (simp add: dispatch_def quietOutcome_def Let_def split: sum.splits)

lemma quiet_forIntervals:
  "quiet st' = quiet st \<Longrightarrow>
     quietOutcome (forIntervals (E\<lparr>sendMail := f\<rparr>) tom da p kvs st')
       = quietOutcome (forIntervals E tom da p kvs st)"
proof (induction kvs arbitrary: st st')
  case Nil
  then show ?case by (simp add: quietOutcome_def)
next
  case (Cons kv kvs)
  show ?case
  proof (cases "evalPair (Date_parse E) tom da p kv")
    case (Inl err)
    then show ?thesis using Cons.prems by (simp add: quietOutcome_def)
  next
    case (Inr r)
    show ?thesis
    proof (cases r)
      case None
      then show ?thesis using Inr Cons by simp
    next
      case (Some ev)
      let ?a = "st'\<lparr>events := events st' @ [ev]\<rparr>" and ?b = "st\<lparr>events := events st @ [ev]\<rparr>"
      have q: "quiet ?a = quiet ?b" using Cons.prems by (simp add: quiet_eq)
      have d: "quietOutcome (dispatch (E\<lparr>sendMail := f\<rparr>) ev ?a) = quietOutcome (dispatch E ev ?b)"
        using q by (rule quiet_dispatch)
      show ?thesis
      proof (cases "dispatch E ev ?b")
        case (Thrown err s)
        then obtain s' where "dispatch (E\<lparr>sendMail := f\<rparr>) ev ?a = Thrown err s'" "quiet s' = quiet s"
          using d by (auto simp: quietOutcome_def split: outcome.splits)
        then show ?thesis using Inr Some Thrown by (simp add: quietOutcome_def)
      next
        case (Normal s)
        then obtain s' where "dispatch (E\<lparr>sendMail := f\<rparr>) ev ?a = Normal s'" "quiet s' = quiet s"
          using d by (auto simp: quietOutcome_def split: outcome.splits)
        then show ?thesis using Inr Some Normal Cons.IH [of s' s] by simp
      qed
    qed
  qed
qed

lemma quiet_forPets:
  "quiet st' = quiet st \<Longrightarrow>
     quietOutcome (forPets (E\<lparr>sendMail := f\<rparr>) ivs tom da ps st')
       = quietOutcome (forPets E ivs tom da ps st)"
proof (induction ps arbitrary: st st')
  case Nil
  then show ?case by (simp add: quietOutcome_def)
next
  case (Cons p ps)
  have d: "quietOutcome (forIntervals (E\<lparr>sendMail := f\<rparr>) tom da p ivs st')
             = quietOutcome (forIntervals E tom da p ivs st)"
    using Cons.prems by (rule quiet_forIntervals)
  show ?case
  proof (cases "forIntervals E tom da p ivs st")
    case (Thrown err s)
    then obtain s' where "forIntervals (E\<lparr>sendMail := f\<rparr>) tom da p ivs st' = Thrown err s'"
      "quiet s' = quiet s"
      using d by (auto simp: quietOutcome_def split: outcome.splits)
    then show ?thesis using Thrown by (simp add: quietOutcome_def)
  next
    case (Normal s)
    then obtain s' where "forIntervals (E\<lparr>sendMail := f\<rparr>) tom da p ivs st' = Normal s'"
      "quiet s' = quiet s"
      using d by (auto simp: quietOutcome_def split: outcome.splits)
    then show ?thesis using Normal Cons.IH [of s' s] by simp
  qed
qed

lemma quiet_reminderBody:
  "quietOutcome (reminderBody (E\<lparr>sendMail := f\<rparr>) ivs st) = quietOutcome (reminderBody E ivs st)"
  using quiet_forPets [OF refl]
  by (simp add: reminderBody_def Let_def quietOutcome_def split: sum.splits)

lemma quiet_remindersWith:
  "quiet (remindersWith ivs (E\<lparr>sendMail := f\<rparr>) st) = quiet (remindersWith ivs E st)"
proof -
  have "quiet (remindersWith ivs E' st) = quiet (stateOf (reminderBody E' ivs st))" for E'
    by (simp add: remindersWith_def stateOf_def quiet_eq split: outcome.splits)
  moreover have "quiet (stateOf r) = stateOf (quietOutcome r)" for r
    by (simp add: stateOf_def quietOutcome_def split: outcome.splits)
  ultimately show ?thesis by (simp add: quiet_reminderBody)
qed

lemma forIntervals_thrown:
  "evalPair (Date_parse E) tom da p kv = Inr (Some ev) \<Longrightarrow>
   dispatch E ev (st\<lparr>events := events st @ [ev]\<rparr>) = Thrown err st' \<Longrightarrow>
     forIntervals E tom da p (kv # kvs) st = Thrown err st'"
  by simp

lemma forPets_thrown:
  "forPets E ivs tom da ps st = Thrown err st' \<Longrightarrow>
     forPets E ivs tom da (ps @ ps') st = Thrown err st'"
  by (induction ps arbitrary: st) (auto split: outcome.splits)

text \<open>
  Claim C8, amended. A mail send error is isolated: it reaches only the callback of
  \<open>sendMail\<close>, so the mails handed to the transporter and the due events of a pass are the
  same whichever sends fail. A store query error raised while processing a pet is not
  isolated to that pet: the lookup that rejects throws out of the notification branch,
  out of the loop over the table and out of the loop over the pets, so the remaining
  pet and vaccine-type pairs are not processed; the error is caught at the top of the
  pass, which writes it to the console and returns.
\<close>

theorem failures_in_a_pass:
  "outbox (remindersWith ivs (E\<lparr>sendMail := f\<rparr>) st) = outbox (remindersWith ivs E st)
   \<and> events (remindersWith ivs (E\<lparr>sendMail := f\<rparr>) st) = events (remindersWith ivs E st)
   \<and> (findAdoption E (pet_id (ev_pet ev)) = Inl err \<longrightarrow> dispatch E ev st = Thrown err st)
   \<and> (findAdoption E (pet_id (ev_pet ev)) = Inr a
        \<and> findPurchase E (pet_id (ev_pet ev)) = Inl err \<longrightarrow>
          dispatch E ev st = Thrown err (notifyAdopter E ev a st))
   \<and> (evalPair (Date_parse E) tom da p kv = Inr (Some ev)
        \<and> dispatch E ev (st\<lparr>events := events st @ [ev]\<rparr>) = Thrown err st' \<longrightarrow>
          forIntervals E tom da p (kv # kvs) st = Thrown err st')
   \<and> (forPets E ivs tom da ps st = Thrown err st' \<longrightarrow>
          forPets E ivs tom da (ps @ ps') st = Thrown err st')
   \<and> (reminderBody E ivs st = Thrown err st' \<longrightarrow>
          remindersWith ivs E st = st'\<lparr>logs := logs st' @ [PassError err]\<rparr>)"
proof -
  have "quiet (remindersWith ivs (E\<lparr>sendMail := f\<rparr>) st) = quiet (remindersWith ivs E st)"
    by (rule quiet_remindersWith)
  then have "outbox (remindersWith ivs (E\<lparr>sendMail := f\<rparr>) st) = outbox (remindersWith ivs E st)"
    "events (remindersWith ivs (E\<lparr>sendMail := f\<rparr>) st) = events (remindersWith ivs E st)"
    by (simp_all add: quiet_eq)
  moreover have "findAdoption E (pet_id (ev_pet ev)) = Inl err \<longrightarrow> dispatch E ev st = Thrown err st"
    by (simp add: dispatch_def)
  moreover have "findAdoption E (pet_id (ev_pet ev)) = Inr a
        \<and> findPurchase E (pet_id (ev_pet ev)) = Inl err \<longrightarrow>
          dispatch E ev st = Thrown err (notifyAdopter E ev a st)"
    by (simp add: dispatch_def Let_def)
  moreover have "evalPair (Date_parse E) tom da p kv = Inr (Some ev)
        \<and> dispatch E ev (st\<lparr>events := events st @ [ev]\<rparr>) = Thrown err st' \<longrightarrow>
          forIntervals E tom da p (kv # kvs) st = Thrown err st'"
    by (simp add: forIntervals_thrown)
  moreover have "forPets E ivs tom da ps st = Thrown err st' \<longrightarrow>
          forPets E ivs tom da (ps @ ps') st = Thrown err st'"
    by (simp add: forPets_thrown)
  moreover have "reminderBody E ivs st = Thrown err st' \<longrightarrow>
          remindersWith ivs E st = st'\<lparr>logs := logs st' @ [PassError err]\<rparr>"
    by (simp add: remindersWith_def)
  ultimately show ?thesis by blast
qed

lemma broken_lookup: "findAdoption brokenShelter (pet_id (ev_pet rabiesEvent)) = Inl StoreError"
  by (simp add: brokenShelter_def rabiesEvent_def bella_def)

lemma broken_first_pet:
  "forPets brokenShelter [(''rabies'', 365)] ''2025-01-09'' ''2025-01-10'' [bella ''2024-01-10'']
     emptyState = Thrown StoreError (emptyState\<lparr>events := [rabiesEvent]\<rparr>)"
  by code_simp

theorem failures_in_a_pass_witness:
  "outbox (remindersWith normalizedIntervals (shelter\<lparr>sendMail := (\<lambda>m. False)\<rparr>) emptyState)
     = outbox (remindersWith normalizedIntervals shelter emptyState)
   \<and> dispatch brokenShelter rabiesEvent emptyState = Thrown StoreError emptyState
   \<and> forPets brokenShelter [(''rabies'', 365)] ''2025-01-09'' ''2025-01-10''
        ([bella ''2024-01-10''] @ [maxPet]) emptyState
       = Thrown StoreError (emptyState\<lparr>events := [rabiesEvent]\<rparr>)"
  using failures_in_a_pass
    [where ivs = normalizedIntervals and E = shelter and f = "\<lambda>m. False" and st = emptyState]
    failures_in_a_pass
    [where ivs = "[(''rabies'', 365)]" and E = brokenShelter and st = emptyState
       and ev = rabiesEvent and err = StoreError and tom = "''2025-01-09''"
       and da = "''2025-01-10''" and st' = "emptyState\<lparr>events := [rabiesEvent]\<rparr>"
       and ps = "[bella ''2024-01-10'']" and ps' = "[maxPet]"]
    broken_lookup broken_first_pet
  by simp

section \<open>The latest dose\<close>

text \<open>
  When the date of the first matching entry parses, the entry that the reduction selects
  has a date that parses, and no matching entry has a later one.
\<close>

lemma foldl_later_max:
  assumes "new_Date parse (date e) = Some t0"
  shows "\<exists>tl. new_Date parse (date (foldl (later parse) e es)) = Some tl \<and> t0 \<le> tl
           \<and> (\<forall>x\<in>set es. \<forall>tx. new_Date parse (date x) = Some tx \<longrightarrow> tx \<le> tl)"
  using assms
proof (induction es arbitrary: e t0)
  case Nil
  then show ?case by simp
next
  case (Cons x es)
  show ?case
  proof (cases "date_gt (new_Date parse (date x)) (new_Date parse (date e))")
    case True
    then obtain tx where tx: "new_Date parse (date x) = Some tx" "t0 < tx"
      using Cons.prems by (auto simp: date_gt_def split: option.splits)
    obtain tl where "new_Date parse (date (foldl (later parse) x es)) = Some tl" "tx \<le> tl"
      "\<forall>y\<in>set es. \<forall>ty. new_Date parse (date y) = Some ty \<longrightarrow> ty \<le> tl"
      using Cons.IH [OF tx(1)] by blast
    moreover have "later parse e x = x" using True by (simp add: later_def)
    ultimately show ?thesis using tx by (intro exI [of _ tl]) auto
  next
    case False
    obtain tl where tl: "new_Date parse (date (foldl (later parse) e es)) = Some tl" "t0 \<le> tl"
      "\<forall>y\<in>set es. \<forall>ty. new_Date parse (date y) = Some ty \<longrightarrow> ty \<le> tl"
      using Cons.IH [OF Cons.prems] by blast
    have "tx \<le> t0" if "new_Date parse (date x) = Some tx" for tx
      using False that Cons.prems by (simp add: date_gt_def)
    moreover have "later parse e x = e" using False by (simp add: later_def)
    ultimately show ?thesis using tl by (intro exI [of _ tl]) auto
  qed
qed

lemma latestForType_max:
  assumes "new_Date parse (date e) = Some t0"
  shows "\<exists>l tl. latestForType parse (e # es) = Some l \<and> new_Date parse (date l) = Some tl
           \<and> (\<forall>x\<in>set (e # es). \<forall>tx. new_Date parse (date x) = Some tx \<longrightarrow> tx \<le> tl)"
proof -
  have "later parse e e = e" by (simp add: later_def date_gt_def split: option.splits)
  then have "latestForType parse (e # es) = Some (foldl (later parse) e es)"
    by (simp add: latestForType_def)
  then show ?thesis using foldl_later_max [OF assms, of es] assms by auto
qed

text \<open>
  Claim C4. The reduction starts from the first matching entry. When the date of that
  entry does not parse, no later date compares greater than NaN: the entry selected for
  Rex is the unparsable one, not the dose of 2024-01-10, and on 2025-01-08 the pass meets
  no due event for Rex, while it meets one for a pet that has the dose of 2024-01-10 alone.
\<close>

theorem first_entry_unparsable:
  "parseDateOnly ''unknown'' = None
   \<and> latestForType parseDateOnly (entriesForType ''rabies'' (vaccinations rex)) =
       Some \<lparr>vaccineType = Str ''Rabies'', date = Str ''unknown''\<rparr>
   \<and> events (sendVaccinationReminders (storeEnv [rex] [] [] 1736326800000) emptyState) = []
   \<and> map pairOf
       (events (sendVaccinationReminders (storeEnv [bella ''2024-01-10''] [] [] 1736326800000)
                  emptyState)) = [(''p1'', ''rabies'')]"
  by code_simp

end
